theory Spec2Isabelle
  imports Main "HOL-Library.Word" "HOL-Library.Sublist"
begin

unbundle bit_operations_syntax

section \<open>Path-tracking engine (src/helloworld/src/maze/engine.ts)\<close>

text \<open>
  Moves are JavaScript numbers; the engine only compares them and copies them, so they are
  modelled as \<open>int\<close>. Array indices and lengths are natural numbers.
\<close>

subsection \<open>firstDivergence\<close>

text \<open>
  The \<open>for\<close> loop of \<open>firstDivergence\<close>: \<open>i\<close> runs from its start value up to \<open>len\<close> and the
  loop returns the first index at which the two arrays differ (\<open>Some i\<close>), or falls through
  (\<open>None\<close>).
\<close>

function firstDivergence_loop :: "int list \<Rightarrow> int list \<Rightarrow> nat \<Rightarrow> nat \<Rightarrow> nat option" where
  "firstDivergence_loop playerMoves solutionMoves len i =
     (if i < len then
        (if playerMoves ! i \<noteq> solutionMoves ! i then Some i
         else firstDivergence_loop playerMoves solutionMoves len (i + 1))
      else None)"
  by pat_completeness auto
termination
  by (relation "measure (\<lambda>(p, s, len, i). len - i)") auto

declare firstDivergence_loop.simps [simp del]

definition firstDivergence :: "int list \<Rightarrow> int list \<Rightarrow> int" where
  "firstDivergence playerMoves solutionMoves =
     (let len = min (length playerMoves) (length solutionMoves) in
      case firstDivergence_loop playerMoves solutionMoves len 0 of
        Some i \<Rightarrow> int i
      | None \<Rightarrow>
          if length playerMoves > length solutionMoves then int (length solutionMoves)
          else - 1)"

subsection \<open>hintSegment\<close>

text \<open>
  \<open>Array.prototype.slice(start, end)\<close> on integer arguments: a negative argument counts
  from the end of the array, and both are clamped into \<open>[0, length]\<close>.
\<close>

definition js_slice :: "'a list \<Rightarrow> int \<Rightarrow> int \<Rightarrow> 'a list" where
  "js_slice xs start end =
     (let len = int (length xs);
          k = (if start < 0 then max (len + start) 0 else min start len);
          fin = (if end < 0 then max (len + end) 0 else min end len)
      in take (nat (fin - k)) (drop (nat k) xs))"

text \<open>
  \<open>hintSegment(solutionMoves, progress, divergence, L)\<close>. The three numeric arguments are
  taken as integers, on which \<open>Math.floor\<close> is the identity.
\<close>

definition hintSegment :: "int list \<Rightarrow> int \<Rightarrow> int \<Rightarrow> int \<Rightarrow> int list" where
  "hintSegment solutionMoves progress divergence L =
     (let cappedSolution = js_slice solutionMoves 0 L;
          clen = int (length cappedSolution);
          clampedProgress = max 0 (min progress clen);
          clampedDivergence = (if divergence \<ge> 0 then min divergence clen else - 1);
          start = max clampedProgress
                      (if clampedDivergence \<ge> 0 then clampedDivergence else clampedProgress);
          remaining = max 0 (clen - start)
      in if remaining = 0 then []
         else let takeCount = (if remaining \<ge> 20 then 20 else min 10 remaining)
              in js_slice cappedSolution start (start + takeCount))"

text \<open>
  The hint window as the specification words it: the reference is cut to its first \<open>cap\<close>
  entries, progress and a non-negative divergence index are clamped into
  \<open>[0, clampedLength]\<close>, the window starts at the larger of the two and holds 20 moves when at
  least 20 remain and \<open>min 10 remaining\<close> otherwise.
\<close>

definition hintSegment_spec :: "int list \<Rightarrow> int \<Rightarrow> int \<Rightarrow> int \<Rightarrow> int list" where
  "hintSegment_spec referenceMoves progress divergenceIndex cap =
     (let clamped = take (nat cap) referenceMoves;
          clampedLength = int (length clamped);
          p = max 0 (min progress clampedLength);
          start = (if divergenceIndex \<ge> 0 then max p (max 0 (min divergenceIndex clampedLength))
                   else p);
          remaining = clampedLength - start;
          n = (if remaining \<ge> 20 then 20 else min 10 remaining)
      in take (nat n) (drop (nat start) clamped))"

section \<open>Puzzle codec (src/helloworld/src/maze/decoder.ts)\<close>

text \<open>
  A JavaScript string is a sequence of UTF-16 code units, modelled as a list of natural
  numbers; \<open>js_string\<close> turns a literal into one. A \<open>Uint8Array\<close> is a list of 8-bit
  words: reading past its end gives \<open>undefined\<close> and writing past its end is ignored.
\<close>

type_synonym byte = "8 word"
type_synonym js_string = "nat list"

definition js_string :: "string \<Rightarrow> js_string" where
  "js_string s = map of_char s"

definition DIRECTION_MASK_N :: byte where "DIRECTION_MASK_N = 1"
definition DIRECTION_MASK_E :: byte where "DIRECTION_MASK_E = 2"
definition DIRECTION_MASK_S :: byte where "DIRECTION_MASK_S = 4"
definition DIRECTION_MASK_W :: byte where "DIRECTION_MASK_W = 8"

subsection \<open>Base64\<close>

text \<open>The error thrown for a malformed Base64 length.\<close>

datatype decode_error = Invalid_base64_input_length

definition BASE64_ALPHABET :: js_string where
  "BASE64_ALPHABET =
     js_string ''ABCDEFGHIJKLMNOPQRSTUVWXYZabcdefghijklmnopqrstuvwxyz0123456789+/''"

text \<open>
  The lookup table: 256 entries filled with the sentinel 255, then the index of every
  alphabet character at its character code, then 0 for the padding character.
\<close>

definition BASE64_LOOKUP :: "byte list" where
  "BASE64_LOOKUP =
     (let table = replicate 256 (255 :: byte);
          table = fold (\<lambda>i t. t[BASE64_ALPHABET ! i := of_nat i])
                       [0 ..< length BASE64_ALPHABET] table
      in table[of_char CHR ''='' := 0])"

text \<open>\<open>charCodeAt\<close> is \<open>NaN\<close> (here \<open>None\<close>) past the end of the string.\<close>

definition charCodeAt :: "js_string \<Rightarrow> nat \<Rightarrow> nat option" where
  "charCodeAt s i = (if i < length s then Some (s ! i) else None)"

text \<open>
  \<open>BASE64_LOOKUP[code]\<close> as an operand of \<open><<\<close> and \<open>|\<close>: a 32-bit integer. An index
  outside the table (a code unit of 256 or more, or \<open>NaN\<close>) reads \<open>undefined\<close>, which
  the bit operators take as 0.
\<close>

definition lookup :: "nat option \<Rightarrow> 32 word" where
  "lookup code =
     (case code of
        None \<Rightarrow> 0
      | Some c \<Rightarrow> if c < length BASE64_LOOKUP then ucast (BASE64_LOOKUP ! c) else 0)"

text \<open>The character class \<open>\s\<close> of a JavaScript regular expression.\<close>

definition is_js_space :: "nat \<Rightarrow> bool" where
  "is_js_space c \<longleftrightarrow>
     c \<in> {9, 10, 11, 12, 13, 32, 160, 5760, 8232, 8233, 8239, 8287, 12288, 65279} \<or>
     (8192 \<le> c \<and> c \<le> 8202)"

definition sanitize :: "js_string \<Rightarrow> js_string" where
  "sanitize input = filter (\<lambda>c. \<not> is_js_space c) input"

definition endsWith :: "js_string \<Rightarrow> js_string \<Rightarrow> bool" where
  "endsWith s t \<longleftrightarrow> length t \<le> length s \<and> drop (length s - length t) s = t"

text \<open>
  The decoding loop of \<open>decodeBase64ToUint8Array\<close>: four characters make a 24-bit chunk,
  whose first byte is always stored and whose second and third bytes are stored while
  \<open>outIndex < byteLength\<close>.
\<close>

function decode_loop :: "js_string \<Rightarrow> nat \<Rightarrow> nat \<Rightarrow> byte list \<Rightarrow> nat \<Rightarrow> byte list" where
  "decode_loop sanitized byteLength i output outIndex =
     (if i < length sanitized then
        (let a = lookup (charCodeAt sanitized i);
             b = lookup (charCodeAt sanitized (i + 1));
             c = lookup (charCodeAt sanitized (i + 2));
             d = lookup (charCodeAt sanitized (i + 3));
             chunk = push_bit 18 a OR push_bit 12 b OR push_bit 6 c OR d;
             output1 = output[outIndex := ucast (drop_bit 16 chunk AND 0xff)];
             outIndex1 = outIndex + 1;
             output2 = (if outIndex1 < byteLength
                        then output1[outIndex1 := ucast (drop_bit 8 chunk AND 0xff)]
                        else output1);
             outIndex2 = (if outIndex1 < byteLength then outIndex1 + 1 else outIndex1);
             output3 = (if outIndex2 < byteLength
                        then output2[outIndex2 := ucast (chunk AND 0xff)]
                        else output2);
             outIndex3 = (if outIndex2 < byteLength then outIndex2 + 1 else outIndex2)
         in decode_loop sanitized byteLength (i + 4) output3 outIndex3)
      else output)"
  by pat_completeness auto
termination
  by (relation "measure (\<lambda>(s, bl, i, out, oi). length s - i)") auto

declare decode_loop.simps [simp del]

text \<open>
  The bytes decoded before the zlib heuristic is tried. The function is only applied to a
  sanitized string whose length is a multiple of 4, so \<open>byteLength\<close> is not negative.
\<close>

definition decode_raw :: "js_string \<Rightarrow> byte list" where
  "decode_raw sanitized =
     (let padding = (if endsWith sanitized (js_string ''=='') then 2
                     else if endsWith sanitized (js_string ''='') then 1 else 0);
          byteLength = (length sanitized div 4) * 3 - padding
      in decode_loop sanitized byteLength 0 (replicate byteLength 0) 0)"

text \<open>
  The external decompression library: \<open>pako\<close> is \<open>None\<close> when \<open>require('pako')\<close> failed,
  and otherwise holds \<open>pako.inflate\<close>, which either throws (\<open>None\<close>) or returns bytes (the
  empty list also stands for an \<open>undefined\<close> result).
\<close>

type_synonym inflate_fn = "byte list \<Rightarrow> byte list option"

definition decodeBase64ToUint8Array ::
  "inflate_fn option \<Rightarrow> js_string \<Rightarrow> decode_error + byte list" where
  "decodeBase64ToUint8Array pako input =
     (let sanitized = sanitize input in
      if length sanitized mod 4 \<noteq> 0 then Inl Invalid_base64_input_length
      else
        let output = decode_raw sanitized in
        if take 2 sanitized = js_string ''eJ'' then
          (case pako of
             None \<Rightarrow> Inr output
           | Some inflate \<Rightarrow>
               (case inflate output of
                  None \<Rightarrow> Inr output
                | Some inflated \<Rightarrow> if inflated \<noteq> [] then Inr inflated else Inr output))
        else Inr output)"

subsection \<open>Parsed payloads\<close>

text \<open>
  The JSON documents of the puzzle feed hold numbers (integers), arrays and \<open>null\<close>; the
  source asserts the types \<open>number[][]\<close> and \<open>[number, number][]\<close> of them. Strings,
  booleans, objects and fractions are outside those types and not modelled.
\<close>

datatype json = JNull | JNum int | JArr "json list"

text \<open>
  \<open>TextDecoder.decode\<close> followed by \<open>JSON.parse\<close>, an external primitive: \<open>None\<close> when
  it throws.
\<close>

type_synonym parse_fn = "byte list \<Rightarrow> json option"

text \<open>
  \<open>tryParseBase64ZlibJson\<close>: the parsed JSON value, or \<open>JNull\<close> for \<open>null\<close>. A failed
  Base64 decoding, a missing library and an inflated result that is empty all give
  \<open>null\<close>; when inflating or parsing the inflated text throws, the raw bytes are parsed.
\<close>

definition tryParseBase64ZlibJson :: "inflate_fn option \<Rightarrow> parse_fn \<Rightarrow> js_string \<Rightarrow> json" where
  "tryParseBase64ZlibJson pako parse s =
     (case decodeBase64ToUint8Array pako s of
        Inl e \<Rightarrow> JNull
      | Inr bytes \<Rightarrow>
          (case pako of
             None \<Rightarrow> JNull
           | Some inflate \<Rightarrow>
               (case inflate bytes of
                  Some inflated \<Rightarrow>
                    if inflated \<noteq> [] then
                      (case parse inflated of
                         Some result \<Rightarrow> result
                       | None \<Rightarrow> (case parse bytes of Some result \<Rightarrow> result | None \<Rightarrow> JNull))
                    else JNull
                | None \<Rightarrow> (case parse bytes of Some result \<Rightarrow> result | None \<Rightarrow> JNull))))"

subsection \<open>Opening masks\<close>

text \<open>\<open>openings[i] ?? 0\<close> and \<open>openings[i] = v\<close> on a \<open>Uint8Array\<close>, for an integer index.\<close>

definition mask_at :: "byte list \<Rightarrow> int \<Rightarrow> byte" where
  "mask_at ops i = (if 0 \<le> i \<and> i < int (length ops) then ops ! nat i else 0)"

definition set_mask :: "byte list \<Rightarrow> int \<Rightarrow> byte \<Rightarrow> byte list" where
  "set_mask ops i m = (if 0 \<le> i \<and> i < int (length ops) then ops[nat i := m] else ops)"

text \<open>
  The body of the two nested loops of \<open>normalizeOpenings\<close>, for the cell \<open>(x, y)\<close>. The
  local \<open>mask\<close> is the stripped mask of the cell; it is not read again from the array after
  the east-west step.
\<close>

definition normalize_cell :: "nat \<Rightarrow> nat \<Rightarrow> byte list \<Rightarrow> nat \<Rightarrow> nat \<Rightarrow> byte list" where
  "normalize_cell w h openings y x =
     (let idx = int (y * w + x);
          mask = mask_at openings idx;
          mask = (if x = 0 then mask AND NOT DIRECTION_MASK_W else mask);
          mask = (if int x = int w - 1 then mask AND NOT DIRECTION_MASK_E else mask);
          mask = (if y = 0 then mask AND NOT DIRECTION_MASK_N else mask);
          mask = (if int y = int h - 1 then mask AND NOT DIRECTION_MASK_S else mask);
          openings = set_mask openings idx mask;
          openings =
            (if int x < int w - 1 then
               let rightIdx = idx + 1;
                   rightMask = mask_at openings rightIdx;
                   openings =
                     (if mask AND DIRECTION_MASK_E \<noteq> 0 \<and> \<not> (rightMask AND DIRECTION_MASK_W \<noteq> 0)
                      then set_mask openings rightIdx (rightMask OR DIRECTION_MASK_W)
                      else openings)
               in if rightMask AND DIRECTION_MASK_W \<noteq> 0 \<and> \<not> (mask AND DIRECTION_MASK_E \<noteq> 0)
                  then set_mask openings idx (mask OR DIRECTION_MASK_E)
                  else openings
             else openings)
      in if int y < int h - 1 then
           let downIdx = idx + int w;
               downMask = mask_at openings downIdx;
               openings =
                 (if mask AND DIRECTION_MASK_S \<noteq> 0 \<and> \<not> (downMask AND DIRECTION_MASK_N \<noteq> 0)
                  then set_mask openings downIdx (downMask OR DIRECTION_MASK_N)
                  else openings)
           in if downMask AND DIRECTION_MASK_N \<noteq> 0 \<and> \<not> (mask AND DIRECTION_MASK_S \<noteq> 0)
              then set_mask openings idx (mask OR DIRECTION_MASK_S)
              else openings
         else openings)"

text \<open>\<open>openings[i] |= bit\<close>.\<close>

definition or_mask :: "byte list \<Rightarrow> int \<Rightarrow> byte \<Rightarrow> byte list" where
  "or_mask ops i b = set_mask ops i (mask_at ops i OR b)"

definition normalizeOpenings :: "byte list \<Rightarrow> nat \<Rightarrow> nat \<Rightarrow> byte list" where
  "normalizeOpenings openings w h =
     (let openings =
            fold (\<lambda>y openings. fold (\<lambda>x openings. normalize_cell w h openings y x) [0 ..< w] openings)
                 [0 ..< h] openings;
          startIdx = 0;
          openings =
            (if mask_at openings startIdx = 0 then
               (if w > 1 then
                  or_mask (or_mask openings startIdx DIRECTION_MASK_E) (startIdx + 1) DIRECTION_MASK_W
                else if h > 1 then
                  or_mask (or_mask openings startIdx DIRECTION_MASK_S) (int w) DIRECTION_MASK_N
                else openings)
             else openings);
          goalIdx = (int h - 1) * int w + (int w - 1)
      in if mask_at openings goalIdx = 0 then
           (if w > 1 then
              or_mask (or_mask openings goalIdx DIRECTION_MASK_W) (goalIdx - 1) DIRECTION_MASK_E
            else if h > 1 then
              or_mask (or_mask openings goalIdx DIRECTION_MASK_N) (goalIdx - int w) DIRECTION_MASK_S
            else openings)
         else openings)"

text \<open>
  Reading the expanded grid. \<open>truthy\<close> is JavaScript's truthiness of a parsed value;
  \<open>grid_at grid r c\<close> is the truthiness of \<open>expandedGrid[r][c]\<close>, or \<open>None\<close> when the access
  throws a \<open>TypeError\<close> (the row is \<open>null\<close> or missing). A row that is a number has no
  elements, and an element past the end of a row is \<open>undefined\<close>.
\<close>

fun truthy :: "json \<Rightarrow> bool" where
  "truthy JNull = False"
| "truthy (JNum n) = (n \<noteq> 0)"
| "truthy (JArr xs) = True"

definition grid_at :: "json list \<Rightarrow> nat \<Rightarrow> nat \<Rightarrow> bool option" where
  "grid_at grid r c =
     (if r < length grid then
        (case grid ! r of
           JNull \<Rightarrow> None
         | JNum n \<Rightarrow> Some False
         | JArr row \<Rightarrow> Some (if c < length row then truthy (row ! c) else False))
      else None)"

text \<open>\<open>a && b\<close> on accesses that may throw: \<open>b\<close> is only evaluated when \<open>a\<close> is truthy.\<close>

definition and_then :: "bool option \<Rightarrow> bool option \<Rightarrow> bool option" where
  "and_then a b = (case a of None \<Rightarrow> None | Some False \<Rightarrow> Some False | Some True \<Rightarrow> b)"

text \<open>
  \<open>expandedGrid[0].length\<close>: \<open>None\<close> when it throws, \<open>Some None\<close> for \<open>undefined\<close> (row 0
  is a number), against which every comparison is false.
\<close>

definition row0_length :: "json list \<Rightarrow> nat option option" where
  "row0_length grid =
     (case grid of
        [] \<Rightarrow> None
      | JNull # _ \<Rightarrow> None
      | JNum n # _ \<Rightarrow> Some None
      | JArr row # _ \<Rightarrow> Some (Some (length row)))"

text \<open>
  The mask of the cell \<open>(x, y)\<close> in \<open>convertExpandedToRegular\<close>: \<open>None\<close> when an access
  throws, \<open>Some None\<close> when the cell has no passable centre (its entry keeps the initial 0),
  \<open>Some (Some mask)\<close> otherwise.
\<close>

definition convert_cell :: "json list \<Rightarrow> nat \<Rightarrow> nat \<Rightarrow> byte option option" where
  "convert_cell expandedGrid y x =
     (let r = 2 * y + 1; c = 2 * x + 1 in
      if \<not> r < length expandedGrid then Some None
      else
        (case row0_length expandedGrid of
           None \<Rightarrow> None
         | Some None \<Rightarrow> Some None
         | Some (Some cols) \<Rightarrow>
             if \<not> c < cols then Some None
             else
               (case grid_at expandedGrid r c of
                  None \<Rightarrow> None
                | Some False \<Rightarrow> Some None
                | Some True \<Rightarrow>
                    (case (if r \<ge> 2
                           then and_then (grid_at expandedGrid (r - 1) c) (grid_at expandedGrid (r - 2) c)
                           else Some False,
                           if int c \<le> int cols - 3
                           then and_then (grid_at expandedGrid r (c + 1)) (grid_at expandedGrid r (c + 2))
                           else Some False,
                           if int r \<le> int (length expandedGrid) - 3
                           then and_then (grid_at expandedGrid (r + 1) c) (grid_at expandedGrid (r + 2) c)
                           else Some False,
                           if c \<ge> 2
                           then and_then (grid_at expandedGrid r (c - 1)) (grid_at expandedGrid r (c - 2))
                           else Some False) of
                       (Some n, Some e, Some s, Some w) \<Rightarrow>
                         Some (Some ((if n then DIRECTION_MASK_N else 0) OR
                                     (if e then DIRECTION_MASK_E else 0) OR
                                     (if s then DIRECTION_MASK_S else 0) OR
                                     (if w then DIRECTION_MASK_W else 0)))
                     | _ \<Rightarrow> None))))"

text \<open>
  \<open>convertExpandedToRegular\<close>: the loops over \<open>y\<close> and \<open>x\<close>, stopping at the first access
  that throws.
\<close>

fun convert_cells :: "json list \<Rightarrow> nat \<Rightarrow> (nat \<times> nat) list \<Rightarrow> byte list \<Rightarrow> byte list option" where
  "convert_cells expandedGrid w [] openings = Some openings"
| "convert_cells expandedGrid w ((y, x) # cells) openings =
     (case convert_cell expandedGrid y x of
        None \<Rightarrow> None
      | Some None \<Rightarrow> convert_cells expandedGrid w cells openings
      | Some (Some m) \<Rightarrow>
          convert_cells expandedGrid w cells (set_mask openings (int (y * w + x)) m))"

definition convertExpandedToRegular :: "json list \<Rightarrow> nat \<Rightarrow> nat \<Rightarrow> byte list option" where
  "convertExpandedToRegular expandedGrid w h =
     convert_cells expandedGrid w
       (concat (map (\<lambda>y. map (\<lambda>x. (y, x)) [0 ..< w]) [0 ..< h]))
       (replicate (w * h) 0)"

text \<open>
  The legacy loop of \<open>decodeOpenings\<close>: two nibbles a byte, the low one first, until
  \<open>totalCells\<close> cells are filled.
\<close>

function nibble_loop :: "byte list \<Rightarrow> nat \<Rightarrow> nat \<Rightarrow> byte list \<Rightarrow> nat \<Rightarrow> byte list" where
  "nibble_loop bytes totalCells i openings cellIndex =
     (if i < length bytes \<and> cellIndex < totalCells then
        (let low = bytes ! i AND 0x0f;
             openings = set_mask openings (int cellIndex) (low AND 0x0f);
             cellIndex = cellIndex + 1
         in if cellIndex \<ge> totalCells then openings
            else
              let high = drop_bit 4 (bytes ! i);
                  openings = set_mask openings (int cellIndex) (high AND 0x0f);
                  cellIndex = cellIndex + 1
              in nibble_loop bytes totalCells (i + 1) openings cellIndex)
      else openings)"
  by pat_completeness auto
termination
  by (relation "measure (\<lambda>(bytes, t, i, ops, ci). length bytes - i)") auto

declare nibble_loop.simps [simp del]

definition is_array :: "json \<Rightarrow> bool" where
  "is_array v = (case v of JArr xs \<Rightarrow> True | _ \<Rightarrow> False)"

text \<open>
  The first part of \<open>decodeOpenings\<close>: the masks of the expanded grid, when the payload
  parses to an array whose first element is an array, the dimensions are
  \<open>(2h+1) \<times> (2w+1)\<close> and nothing throws on the way. The preview that is logged maps over
  the elements of the first five rows, and throws when one of them is not an array.
\<close>

definition decodeOpenings_expanded ::
  "inflate_fn option \<Rightarrow> parse_fn \<Rightarrow> js_string \<Rightarrow> nat \<Rightarrow> nat \<Rightarrow> byte list option" where
  "decodeOpenings_expanded pako parse g w h =
     (case tryParseBase64ZlibJson pako parse g of
        JArr (JArr row0 # rest) \<Rightarrow>
          (let grid = JArr row0 # rest;
               rows = length grid;
               cols = length row0
           in if rows = 2 * h + 1 \<and> cols = 2 * w + 1 then
                (if list_all is_array (take 5 grid) then
                   (case convertExpandedToRegular grid w h of
                      Some converted \<Rightarrow> Some (normalizeOpenings converted w h)
                    | None \<Rightarrow> None)
                 else None)
              else None)
      | _ \<Rightarrow> None)"

definition decodeOpenings ::
  "inflate_fn option \<Rightarrow> parse_fn \<Rightarrow> js_string \<Rightarrow> nat \<Rightarrow> nat \<Rightarrow> decode_error + byte list" where
  "decodeOpenings pako parse g w h =
     (let totalCells = w * h in
      case decodeOpenings_expanded pako parse g w h of
        Some masks \<Rightarrow> Inr masks
      | None \<Rightarrow>
          (case decodeBase64ToUint8Array pako g of
             Inl e \<Rightarrow> Inl e
           | Inr bytes \<Rightarrow> Inr (nibble_loop bytes totalCells 0 (replicate totalCells 0) 0)))"

text \<open>
  The two invariants of the data model, as executable predicates over the cells
  \<open>(x, y)\<close> with mask \<open>openings[y * w + x]\<close>: agreement of the two sides of every shared
  wall, and no bit pointing out of the grid.
\<close>

definition has_bit :: "byte list \<Rightarrow> nat \<Rightarrow> byte \<Rightarrow> bool" where
  "has_bit ops i b \<longleftrightarrow> mask_at ops (int i) AND b \<noteq> 0"


definition openings_inside :: "byte list \<Rightarrow> nat \<Rightarrow> nat \<Rightarrow> bool" where
  "openings_inside ops w h \<longleftrightarrow>
     list_all (\<lambda>y. list_all (\<lambda>x.
         (if y = 0 then \<not> has_bit ops (y * w + x) DIRECTION_MASK_N else True) \<and>
         (if y = h - 1 then \<not> has_bit ops (y * w + x) DIRECTION_MASK_S else True) \<and>
         (if x = 0 then \<not> has_bit ops (y * w + x) DIRECTION_MASK_W else True) \<and>
         (if x = w - 1 then \<not> has_bit ops (y * w + x) DIRECTION_MASK_E else True)) [0 ..< w]) [0 ..< h]"

subsection \<open>Moves\<close>

text \<open>
  The source asserts the type \<open>[number, number][]\<close> of the parsed coordinate array but
  does not check it, so the coordinate path works on whatever was parsed. A component of
  a coordinate is a parsed value or \<open>undefined\<close> (\<open>None\<close>). \<open>to_number\<close> is the
  conversion the arithmetic operators apply, with \<open>None\<close> for \<open>NaN\<close>: \<open>null\<close> is 0,
  and an array is converted through its string, which is a number only when the array is
  empty (0) or has one element (the number of that element).
\<close>

fun to_number :: "json \<Rightarrow> int option" where
  "to_number JNull = Some 0"
| "to_number (JNum n) = Some n"
| "to_number (JArr []) = Some 0"
| "to_number (JArr [v]) = to_number v"
| "to_number (JArr (v # w # vs)) = None"

definition to_number_opt :: "json option \<Rightarrow> int option" where
  "to_number_opt v = (case v of None \<Rightarrow> None | Some j \<Rightarrow> to_number j)"

text \<open>
  \<open>c[k]\<close>: a \<open>TypeError\<close> (\<open>None\<close>) when \<open>c\<close> is \<open>null\<close>, \<open>undefined\<close> when \<open>c\<close> is a
  number or the array is too short. The pattern \<open>[r, c]\<close> throws a \<open>TypeError\<close> on
  \<open>null\<close> and on a number, which are not iterable.
\<close>

definition element :: "json \<Rightarrow> nat \<Rightarrow> json option option" where
  "element c k =
     (case c of
        JNull \<Rightarrow> None
      | JNum n \<Rightarrow> Some None
      | JArr ys \<Rightarrow> Some (if k < length ys then Some (ys ! k) else None))"

definition destructure :: "json \<Rightarrow> (json option \<times> json option) option" where
  "destructure v =
     (case v of
        JArr ys \<Rightarrow> Some (if 0 < length ys then Some (ys ! 0) else None,
                         if 1 < length ys then Some (ys ! 1) else None)
      | _ \<Rightarrow> None)"

text \<open>
  \<open>Math.max(...xs)\<close> of a non-empty list: \<open>NaN\<close> when an argument is \<open>NaN\<close>. A
  comparison with \<open>NaN\<close> is false, and a difference with \<open>NaN\<close> is \<open>NaN\<close>.
\<close>

definition js_max :: "int option list \<Rightarrow> int option" where
  "js_max xs =
     (if list_all (\<lambda>x. x \<noteq> None) xs then Some (fold max (map the xs) (the (hd xs)))
      else None)"

definition js_gt :: "int option \<Rightarrow> int \<Rightarrow> bool" where
  "js_gt a L = (case a of None \<Rightarrow> False | Some n \<Rightarrow> n > L)"

definition js_sub :: "json option \<Rightarrow> json option \<Rightarrow> int option" where
  "js_sub a b =
     (case (to_number_opt a, to_number_opt b) of
        (Some x, Some y) \<Rightarrow> Some (x - y)
      | _ \<Rightarrow> None)"

text \<open>The remainder operator \<open>%\<close>: the result has the sign of the dividend.\<close>

definition js_rem :: "int \<Rightarrow> int \<Rightarrow> int" where
  "js_rem a b = sgn a * (\<bar>a\<bar> mod \<bar>b\<bar>)"

text \<open>
  The function mapped over the coordinates when one of them exceeds \<open>L\<close>: a pair with
  \<open>r % 2 === 1\<close> and \<open>c % 2 === 1\<close> is halved, every other pair is returned as it is.
\<close>

definition norm_pair :: "json option \<times> json option \<Rightarrow> json option \<times> json option" where
  "norm_pair rc =
     (case (to_number_opt (fst rc), to_number_opt (snd rc)) of
        (Some r, Some c) \<Rightarrow>
          if js_rem r 2 = 1 \<and> js_rem c 2 = 1
          then (Some (JNum ((r - 1) div 2)), Some (JNum ((c - 1) div 2)))
          else rc
      | _ \<Rightarrow> rc)"

text \<open>
  The loop that turns consecutive coordinates into moves. An entry of \<open>normCoords\<close> is
  given destructured, \<open>None\<close> when destructuring it throws; the loop stops with the
  \<open>TypeError\<close> (\<open>None\<close>) when it reaches such an entry.
\<close>

function coords_loop ::
  "(json option \<times> json option) option list \<Rightarrow> int \<Rightarrow> nat \<Rightarrow> int list \<Rightarrow> int list option" where
  "coords_loop normCoords L i moves =
     (if int i < int (length normCoords) - 1 \<and> int (length moves) < L then
        (case normCoords ! i of
           None \<Rightarrow> None
         | Some (r1, c1) \<Rightarrow>
             (case normCoords ! (i + 1) of
                None \<Rightarrow> None
              | Some (r2, c2) \<Rightarrow>
                  (let dr = js_sub r2 r1;
                       dc = js_sub c2 c1;
                       moves = (if dr = Some (- 1) \<and> dc = Some 0 then moves @ [0]
                                else if dr = Some 0 \<and> dc = Some 1 then moves @ [1]
                                else if dr = Some 1 \<and> dc = Some 0 then moves @ [2]
                                else if dr = Some 0 \<and> dc = Some (- 1) then moves @ [3]
                                else moves)
                   in coords_loop normCoords L (i + 1) moves)))
      else Some moves)"
  by pat_completeness auto
termination
  by (relation "measure (\<lambda>(coords, L, i, moves). length coords - i)") auto

declare coords_loop.simps [simp del]

text \<open>
  The body of the \<open>try\<close> block for a parsed non-empty array: \<open>None\<close> when a
  \<open>TypeError\<close> is thrown in it. The filter after the normalising map keeps what is not
  \<open>null\<close>, and every entry is an array.
\<close>

definition decodeMoves_coords :: "json list \<Rightarrow> int \<Rightarrow> int list option" where
  "decodeMoves_coords coords L =
     (case those (map (\<lambda>c. element c 0) coords) of
        None \<Rightarrow> None
      | Some rs \<Rightarrow>
          (case those (map (\<lambda>c. element c 1) coords) of
             None \<Rightarrow> None
           | Some cs \<Rightarrow>
               (let maxR = js_max (map to_number_opt rs);
                    maxC = js_max (map to_number_opt cs)
                in if js_gt maxR L \<or> js_gt maxC L then
                     (case those (map destructure coords) of
                        None \<Rightarrow> None
                      | Some pairs \<Rightarrow>
                          coords_loop (map Some (filter (\<lambda>v. True) (map norm_pair pairs))) L 0 [])
                   else coords_loop (map destructure coords) L 0 [])))"

text \<open>The legacy loops: four 2-bit moves a byte, the lowest bits first, up to \<open>L\<close> moves.\<close>

function shift_loop :: "byte \<Rightarrow> int \<Rightarrow> nat \<Rightarrow> int list \<Rightarrow> int list" where
  "shift_loop byte L shift moves =
     (if shift \<le> 6 \<and> int (length moves) < L
      then shift_loop byte L (shift + 2) (moves @ [uint (drop_bit shift byte AND 0x03)])
      else moves)"
  by pat_completeness auto
termination
  by (relation "measure (\<lambda>(byte, L, shift, moves). 8 - shift)") auto

declare shift_loop.simps [simp del]

function bytes_loop :: "byte list \<Rightarrow> int \<Rightarrow> nat \<Rightarrow> int list \<Rightarrow> int list" where
  "bytes_loop bytes L i moves =
     (if i < length bytes \<and> int (length moves) < L
      then bytes_loop bytes L (i + 1) (shift_loop (bytes ! i) L 0 moves)
      else moves)"
  by pat_completeness auto
termination
  by (relation "measure (\<lambda>(bytes, L, i, moves). length bytes - i)") auto

declare bytes_loop.simps [simp del]

text \<open>
  \<open>decodeMoves(p, L)\<close>: the moves of the coordinate path when the payload parses to a
  non-empty array and nothing throws on the way, the legacy packed moves otherwise.
\<close>

definition decodeMoves ::
  "inflate_fn option \<Rightarrow> parse_fn \<Rightarrow> js_string \<Rightarrow> int \<Rightarrow> decode_error + int list" where
  "decodeMoves pako parse p L =
     (let legacy = (case decodeBase64ToUint8Array pako p of
                      Inl e \<Rightarrow> Inl e
                    | Inr bytes \<Rightarrow> Inr (bytes_loop bytes L 0 []))
      in case tryParseBase64ZlibJson pako parse p of
           JArr (v # vs) \<Rightarrow>
             (case decodeMoves_coords (v # vs) L of
                Some moves \<Rightarrow> Inr moves
              | None \<Rightarrow> legacy)
         | _ \<Rightarrow> legacy)"

subsection \<open>Auxiliary notions for the proofs about opening masks\<close>

text \<open>
  Direction \<open>d\<close> (the bit index: 0 north, 1 east, 2 south, 3 west) points out of the grid
  at the cell \<open>(x, y)\<close>; the mask stored at index \<open>j\<close> has no such bit (\<open>clean\<close>); and one
  array arises from another by steps that add no such bit anywhere (\<open>grows\<close>).
\<close>

definition outside_dir :: "nat \<Rightarrow> nat \<Rightarrow> nat \<Rightarrow> nat \<Rightarrow> nat \<Rightarrow> bool" where
  "outside_dir w h y x d \<longleftrightarrow>
     (d = 0 \<and> y = 0) \<or> (d = 1 \<and> x = w - 1) \<or> (d = 2 \<and> y = h - 1) \<or> (d = 3 \<and> x = 0)"

definition clean :: "nat \<Rightarrow> nat \<Rightarrow> byte list \<Rightarrow> nat \<Rightarrow> bool" where
  "clean w h ops j \<longleftrightarrow>
     (\<forall>d. outside_dir w h (j div w) (j mod w) d \<longrightarrow> \<not> bit (mask_at ops (int j)) d)"

definition grows :: "nat \<Rightarrow> nat \<Rightarrow> byte list \<Rightarrow> byte list \<Rightarrow> bool" where
  "grows w h ops ops' \<longleftrightarrow>
     (\<forall>j d. bit (mask_at ops' (int j)) d \<longrightarrow>
            bit (mask_at ops (int j)) d \<or> \<not> outside_dir w h (j div w) (j mod w) d)"

text \<open>The three stages of \<open>normalize_cell\<close>, named for the proofs.\<close>

definition stripped :: "nat \<Rightarrow> nat \<Rightarrow> nat \<Rightarrow> nat \<Rightarrow> byte \<Rightarrow> byte" where
  "stripped w h y x m0 =
     (let m = (if x = 0 then m0 AND NOT DIRECTION_MASK_W else m0);
          m = (if int x = int w - 1 then m AND NOT DIRECTION_MASK_E else m);
          m = (if y = 0 then m AND NOT DIRECTION_MASK_N else m)
      in if int y = int h - 1 then m AND NOT DIRECTION_MASK_S else m)"

definition east_west :: "nat \<Rightarrow> nat \<Rightarrow> byte \<Rightarrow> byte list \<Rightarrow> byte list" where
  "east_west idx x m ops =
     (let rightIdx = int idx + 1;
          rightMask = mask_at ops rightIdx;
          ops1 = (if m AND DIRECTION_MASK_E \<noteq> 0 \<and> \<not> (rightMask AND DIRECTION_MASK_W \<noteq> 0)
                  then set_mask ops rightIdx (rightMask OR DIRECTION_MASK_W) else ops)
      in if rightMask AND DIRECTION_MASK_W \<noteq> 0 \<and> \<not> (m AND DIRECTION_MASK_E \<noteq> 0)
         then set_mask ops1 (int idx) (m OR DIRECTION_MASK_E) else ops1)"

definition north_south :: "nat \<Rightarrow> nat \<Rightarrow> byte \<Rightarrow> byte list \<Rightarrow> byte list" where
  "north_south idx w m ops =
     (let downIdx = int idx + int w;
          downMask = mask_at ops downIdx;
          ops1 = (if m AND DIRECTION_MASK_S \<noteq> 0 \<and> \<not> (downMask AND DIRECTION_MASK_N \<noteq> 0)
                  then set_mask ops downIdx (downMask OR DIRECTION_MASK_N) else ops)
      in if downMask AND DIRECTION_MASK_N \<noteq> 0 \<and> \<not> (m AND DIRECTION_MASK_S \<noteq> 0)
         then set_mask ops1 (int idx) (m OR DIRECTION_MASK_S) else ops1)"




text \<open>
  The specification's reading of an invalid character: a character that is neither in the
  alphabet nor the padding character. \<open>zero_invalid\<close> replaces every such character
  (whitespace apart, which is stripped anyway) by \<open>A\<close>, the digit of value zero.
\<close>

definition is_base64_char :: "nat \<Rightarrow> bool" where
  "is_base64_char c \<longleftrightarrow> c \<in> set BASE64_ALPHABET \<or> c = of_char CHR ''=''"

definition zero_invalid :: "js_string \<Rightarrow> js_string" where
  "zero_invalid input =
     map (\<lambda>c. if is_base64_char c \<or> is_js_space c then c else of_char CHR ''A'') input"


text \<open>
  The value a character contributes to a chunk, in the words of the amended claim: its
  index in the alphabet, zero for the padding character, the sentinel 255 for every other
  code unit below 256, and zero from 256 on.
\<close>

definition digit_index :: "nat \<Rightarrow> nat" where
  "digit_index c = length (takeWhile (\<lambda>x. x \<noteq> c) BASE64_ALPHABET)"

definition sentinel_value :: "nat \<Rightarrow> 32 word" where
  "sentinel_value c =
     (if c \<in> set BASE64_ALPHABET then of_nat (digit_index c)
      else if c = of_char CHR ''='' then 0
      else if c < 256 then 255
      else 0)"

text \<open>
  The three bytes of every group of four characters: the four values are shifted to their
  places and OR-ed together with no masking, so that the bits 6 and 7 of a sentinel reach
  into the place of the character before it.
\<close>

fun sentinel_chunks :: "js_string \<Rightarrow> byte list" where
  "sentinel_chunks (c0 # c1 # c2 # c3 # rest) =
     (let chunk = push_bit 18 (sentinel_value c0) OR push_bit 12 (sentinel_value c1) OR
                  push_bit 6 (sentinel_value c2) OR sentinel_value c3
      in [ucast (drop_bit 16 chunk AND 0xff), ucast (drop_bit 8 chunk AND 0xff),
          ucast (chunk AND 0xff)] @ sentinel_chunks rest)"
| "sentinel_chunks _ = []"

text \<open>The bytes of all groups, cut to three per group less the padding.\<close>

definition sentinel_decode :: "js_string \<Rightarrow> byte list" where
  "sentinel_decode s =
     take ((length s div 4) * 3 -
           (if endsWith s (js_string ''=='') then 2
            else if endsWith s (js_string ''='') then 1 else 0))
       (sentinel_chunks s)"

section \<open>Game screen: processing a traced cell (GameScreen.tsx, part of the decoder file)\<close>

record GridPoint =
  gx :: int
  gy :: int

datatype SkillTier = beginner | intermediate | expert
datatype Difficulty = easy | medium | hard

record MazeRecord =
  maze_v :: int
  maze_alg :: js_string
  maze_w :: int
  maze_h :: int
  maze_g :: js_string
  maze_p :: js_string
  maze_L :: int
  maze_hints :: "int list"
  maze_skillTier :: SkillTier
  maze_difficulty :: Difficulty

text \<open>\<open>DIRECTIONS\<close>: the step and the mask bit of the moves 0 (N), 1 (E), 2 (S), 3 (W).\<close>

definition DIRECTIONS :: "(int \<times> int \<times> byte) list" where
  "DIRECTIONS =
     [(0, - 1, DIRECTION_MASK_N), (1, 0, DIRECTION_MASK_E),
      (0, 1, DIRECTION_MASK_S), (- 1, 0, DIRECTION_MASK_W)]"

text \<open>
  The state of the game screen that \<open>processCell\<close> reads or writes (fields carry the
  prefix \<open>gs_\<close>, those of a puzzle record \<open>maze_\<close>). The walked path is kept twice in
  the source, in a ref and in React state, always with the same value; the model keeps it
  once. \<open>gs_lastCell\<close> is \<open>lastCellRef\<close>, whose key string \<open>x,y\<close> is kept as the point
  itself.
\<close>

record GameState =
  gs_currentMaze :: "MazeRecord option"
  gs_openings :: "byte list"
  gs_solutionMoves :: "int list"
  gs_playerCells :: "GridPoint list"
  gs_playerMoves :: "int list"
  gs_lastCell :: "GridPoint option"
  gs_divergence :: int
  gs_progress :: int
  gs_hintCount :: nat
  gs_sliceCount :: nat
  gs_startTimestamp :: "int option"
  gs_elapsedMs :: int
  gs_completed :: bool
  gs_stars :: int

datatype js_exception = TypeError

definition computeStars :: "int \<Rightarrow> nat \<Rightarrow> nat \<Rightarrow> int" where
  "computeStars elapsed hintsUsed slicesUsed =
     (let stars = 3;
          stars = (if elapsed > 5 * 60 * 1000 then stars - 1 else stars);
          stars = (if hintsUsed > 0 then stars - 1 else stars);
          stars = (if slicesUsed > 2 then stars - 1 else stars)
      in max 1 stars)"

text \<open>
  \<open>evaluateMoves\<close> stores the divergence index and the progress and returns them as
  \<open>(divergenceIndex, correctCount)\<close>.
\<close>

definition evaluateMoves :: "GameState \<Rightarrow> int list \<Rightarrow> GameState \<times> int \<times> int" where
  "evaluateMoves s moves =
     (if length (gs_solutionMoves s) = 0 then (s\<lparr>gs_divergence := - 1, gs_progress := 0\<rparr>, - 1, 0)
      else
        let divergenceIndex = firstDivergence moves (gs_solutionMoves s);
            correctCount = (if divergenceIndex = - 1
                            then int (min (length moves) (length (gs_solutionMoves s)))
                            else divergenceIndex)
        in (s\<lparr>gs_divergence := divergenceIndex, gs_progress := correctCount\<rparr>,
            divergenceIndex, correctCount))"

text \<open>
  \<open>handleWin\<close>, with the clock reading \<open>now\<close> of \<open>Date.now()\<close>. Only its effect on the
  game state is modelled; the interstitial ad and the two persistence calls that follow
  are external services.
\<close>

definition handleWin :: "int \<Rightarrow> GameState \<Rightarrow> GameState" where
  "handleWin now s =
     (if gs_currentMaze s = None \<or> gs_completed s then s
      else
        let finishTime = (case gs_startTimestamp s of
                            Some t \<Rightarrow> if t \<noteq> 0 then now - t else gs_elapsedMs s
                          | None \<Rightarrow> gs_elapsedMs s);
            earnedStars = computeStars finishTime (gs_hintCount s) (gs_sliceCount s)
        in s\<lparr>gs_completed := True, gs_stars := earnedStars, gs_elapsedMs := finishTime\<rparr>)"

text \<open>\<open>DIRECTIONS.findIndex\<close> for a step \<open>(dx, dy)\<close>: \<open>None\<close> stands for \<open>-1\<close>.\<close>

fun findIndex_direction :: "(int \<times> int \<times> byte) list \<Rightarrow> int \<Rightarrow> int \<Rightarrow> nat \<Rightarrow> nat option" where
  "findIndex_direction [] dx dy i = None"
| "findIndex_direction ((ddx, ddy, m) # dirs) dx dy i =
     (if ddx = dx \<and> ddy = dy then Some i else findIndex_direction dirs dx dy (i + 1))"

text \<open>
  \<open>processCell(target)\<close>. An empty list of walked cells makes \<open>last\<close> undefined and the
  first comparison throw a \<open>TypeError\<close>; every early \<open>return\<close> leaves the state as it is.
\<close>

definition processCell :: "int \<Rightarrow> GameState \<Rightarrow> GridPoint \<Rightarrow> js_exception + GameState" where
  "processCell now s target =
     (case gs_currentMaze s of
        None \<Rightarrow> Inr s
      | Some maze \<Rightarrow>
          let cells = gs_playerCells s in
          if cells = [] then Inl TypeError
          else
            let last = cells ! (length cells - 1) in
            if gx last = gx target \<and> gy last = gy target then Inr s
            else if length cells \<ge> 2 \<and>
                    gx (cells ! (length cells - 2)) = gx target \<and>
                    gy (cells ! (length cells - 2)) = gy target then Inr s
            else
              let dx = gx target - gx last;
                  dy = gy target - gy last
              in if \<bar>dx\<bar> + \<bar>dy\<bar> \<noteq> 1 then Inr s
                 else
                   (case findIndex_direction DIRECTIONS dx dy 0 of
                      None \<Rightarrow> Inr s
                    | Some directionIndex \<Rightarrow>
                        let mask = mask_at (gs_openings s) (gy last * maze_w maze + gx last) in
                        if mask AND snd (snd (DIRECTIONS ! directionIndex)) = 0 then Inr s
                        else
                          let nextCells = cells @ [target];
                              nextMoves = gs_playerMoves s @ [int directionIndex];
                              s1 = s\<lparr>gs_playerCells := nextCells, gs_playerMoves := nextMoves,
                                      gs_lastCell := Some target\<rparr>;
                              (s2, divergenceIndex, correctCount) = evaluateMoves s1 nextMoves;
                              reachedGoal = (gx target = maze_w maze - 1 \<and> gy target = maze_h maze - 1)
                          in if reachedGoal then Inr (handleWin now s2)
                             else
                               let requiredMoves =
                                     (if length (gs_solutionMoves s) > 0
                                      then int (length (gs_solutionMoves s)) else maze_L maze)
                               in if divergenceIndex = - 1 \<and> correctCount \<ge> requiredMoves
                                  then Inr (handleWin now s2)
                                  else Inr s2))"

text \<open>
  A state in play: a 2 by 2 maze, the player one step east of the start, with the passage
  back to the start open.
\<close>

definition sample_state :: GameState where
 "sample_state = \<lparr>gs_currentMaze = Some \<lparr>maze_v = 1, maze_alg = js_string ''rb'', maze_w = 2, maze_h = 2, maze_g = [], maze_p = [], maze_L = 2,
            maze_hints = [2], maze_skillTier = beginner, maze_difficulty = easy\<rparr>,
        gs_openings = [2, 12, 0, 1], gs_solutionMoves = [1, 2],
        gs_playerCells = [\<lparr>gx = 0, gy = 0\<rparr>, \<lparr>gx = 1, gy = 0\<rparr>], gs_playerMoves = [1],
        gs_lastCell = Some \<lparr>gx = 1, gy = 0\<rparr>, gs_divergence = - 1, gs_progress = 1,
        gs_hintCount = 0, gs_sliceCount = 0, gs_startTimestamp = Some 1000, gs_elapsedMs = 0,
        gs_completed = False, gs_stars = 0\<rparr>"

section \<open>Authoring tool: packing a solved path (src/temp/app.js)\<close>

datatype author_error = Non_adjacent_move

text \<open>
  \<open>movesFromPathCoords\<close>: the loop over the coordinates from index 1, throwing at the first
  pair that is not one unit step apart.
\<close>

function movesFromPathCoords_loop :: "GridPoint list \<Rightarrow> nat \<Rightarrow> int list \<Rightarrow> author_error + int list" where
  "movesFromPathCoords_loop coords i moves =
     (if i < length coords then
        (let prev = coords ! (i - 1);
             current = coords ! i;
             dx = gx current - gx prev;
             dy = gy current - gy prev
         in if dx = 0 \<and> dy = - 1 then movesFromPathCoords_loop coords (i + 1) (moves @ [0])
            else if dx = 1 \<and> dy = 0 then movesFromPathCoords_loop coords (i + 1) (moves @ [1])
            else if dx = 0 \<and> dy = 1 then movesFromPathCoords_loop coords (i + 1) (moves @ [2])
            else if dx = - 1 \<and> dy = 0 then movesFromPathCoords_loop coords (i + 1) (moves @ [3])
            else Inl Non_adjacent_move)
      else Inr moves)"
  by pat_completeness auto
termination
  by (relation "measure (\<lambda>(coords, i, moves). length coords - i)") auto

declare movesFromPathCoords_loop.simps [simp del]

definition movesFromPathCoords :: "GridPoint list \<Rightarrow> author_error + int list" where
  "movesFromPathCoords coords = movesFromPathCoords_loop coords 1 []"

text \<open>
  \<open>btoa\<close> is the platform's Base64 encoder, not part of the repository. It is modelled
  from its standard (RFC 4648, section 4): three bytes of the binary string make four
  digits of the alphabet, and a last group of one or two bytes is padded with \<open>=\<close>. The
  binary string it is applied to is built from bytes, so its code units are bytes.
\<close>

definition digit :: "byte \<Rightarrow> nat" where
  "digit s = BASE64_ALPHABET ! unat s"

fun btoa :: "byte list \<Rightarrow> js_string" where
  "btoa [] = []"
| "btoa [a] =
     [digit (drop_bit 2 a), digit (push_bit 4 (take_bit 2 a)),
      of_char CHR ''='', of_char CHR ''='']"
| "btoa [a, b] =
     [digit (drop_bit 2 a), digit (push_bit 4 (take_bit 2 a) OR drop_bit 4 b),
      digit (push_bit 2 (take_bit 4 b)), of_char CHR ''='']"
| "btoa (a # b # c # rest) =
     [digit (drop_bit 2 a), digit (push_bit 4 (take_bit 2 a) OR drop_bit 4 b),
      digit (push_bit 2 (take_bit 4 b) OR drop_bit 6 c), digit (take_bit 6 c)] @ btoa rest"

text \<open>
  \<open>bytesToBase64\<close>: the binary string is put together from chunks of \<open>0x8000\<close> bytes and
  handed to \<open>btoa\<close>.
\<close>

function binary_loop :: "byte list \<Rightarrow> nat \<Rightarrow> byte list \<Rightarrow> byte list" where
  "binary_loop u8 i binary =
     (if i < length u8
      then binary_loop u8 (i + 0x8000) (binary @ take 0x8000 (drop i u8))
      else binary)"
  by pat_completeness auto
termination
  by (relation "measure (\<lambda>(u8, i, binary). length u8 - i)") auto

declare binary_loop.simps [simp del]

definition bytesToBase64 :: "byte list \<Rightarrow> js_string" where
  "bytesToBase64 u8 = btoa (binary_loop u8 0 [])"

text \<open>
  \<open>packMovesBase64\<close>: move \<open>index\<close> is clamped to two bits and OR-ed into byte
  \<open>index div 4\<close> at bit \<open>2 * (index mod 4)\<close>.
\<close>

definition pack_move :: "int list \<Rightarrow> nat \<Rightarrow> byte list \<Rightarrow> byte list" where
  "pack_move moves index packed =
     (let clamped = (of_int (moves ! index AND 0x03) :: byte);
          byteIndex = index div 4;
          shift = (index mod 4) * 2
      in packed[byteIndex := packed ! byteIndex OR push_bit shift clamped])"

definition packMovesBase64 :: "int list \<Rightarrow> js_string" where
  "packMovesBase64 moves =
     (if length moves = 0 then []
      else
        let packed = replicate ((length moves + 3) div 4) (0 :: byte);
            packed = fold (pack_move moves) [0 ..< length moves] packed
        in bytesToBase64 packed)"

text \<open>
  A reference solution path: grid coordinates starting at \<open>(0, 0)\<close>, consecutive cells one
  unit step apart, no cell twice.
\<close>

definition unit_step :: "GridPoint \<Rightarrow> GridPoint \<Rightarrow> bool" where
  "unit_step a b \<longleftrightarrow> \<bar>gx b - gx a\<bar> + \<bar>gy b - gy a\<bar> = 1"

fun unit_steps :: "GridPoint list \<Rightarrow> bool" where
  "unit_steps (a # b # rest) = (unit_step a b \<and> unit_steps (b # rest))"
| "unit_steps _ = True"

definition reference_path :: "GridPoint list \<Rightarrow> bool" where
  "reference_path coords \<longleftrightarrow>
     coords \<noteq> [] \<and> hd coords = \<lparr>gx = 0, gy = 0\<rparr> \<and> unit_steps coords \<and> distinct coords"

text \<open>
  What the round trip needs of the two external primitives. \<open>pako.inflate\<close> (with its
  default options) accepts only a stream that starts with a zlib header, whose first byte
  has the compression method 8 in its low nibble, or with the gzip magic number, whose
  first byte is \<open>1F\<close>. \<open>JSON.parse\<close> returns an array only for a text that contains the
  closing bracket \<open>]\<close> (the byte \<open>5D\<close>).
\<close>

definition inflate_checks_header :: "inflate_fn option \<Rightarrow> bool" where
  "inflate_checks_header pako \<longleftrightarrow>
     (case pako of
        None \<Rightarrow> True
      | Some inflate \<Rightarrow>
          (\<forall>bytes inflated. inflate bytes = Some inflated \<and> inflated \<noteq> [] \<longrightarrow>
             bytes \<noteq> [] \<and> (hd bytes AND 0x0f = 8 \<or> hd bytes = 0x1f)))"

definition parse_array_has_bracket :: "parse_fn \<Rightarrow> bool" where
  "parse_array_has_bracket parse \<longleftrightarrow>
     (\<forall>bytes xs. parse bytes = Some (JArr xs) \<longrightarrow> 0x5d \<in> set bytes)"

subsection \<open>The coordinate path of \<open>decodeMoves\<close> on pairs of integers\<close>

text \<open>A coordinate pair of integers as the parsed value \<open>[r, c]\<close>.\<close>

definition coord_json :: "int \<times> int \<Rightarrow> json" where
  "coord_json p = JArr [JNum (fst p), JNum (snd p)]"

text \<open>
  The normalisation in the words of the amended claim: a pair whose two components are
  both odd and positive (have remainder 1 in JavaScript's sense) is halved, every other
  pair is kept; this is done to every pair when the largest row or the largest column
  exceeds \<open>L\<close>, and to none otherwise.
\<close>

definition halved_if_odd :: "int \<times> int \<Rightarrow> int \<times> int" where
  "halved_if_odd p =
     (if 0 < fst p \<and> odd (fst p) \<and> 0 < snd p \<and> odd (snd p)
      then ((fst p - 1) div 2, (snd p - 1) div 2) else p)"

definition normalized_pairs :: "(int \<times> int) list \<Rightarrow> int \<Rightarrow> (int \<times> int) list" where
  "normalized_pairs ps L =
     (if list_ex (\<lambda>p. fst p > L \<or> snd p > L) ps then map halved_if_odd ps else ps)"

text \<open>
  The moves derived from consecutive pairs: one move for a unit step (0 north, 1 east,
  2 south, 3 west, with rows growing southwards), none for any other step.
\<close>

definition step_move :: "int \<times> int \<Rightarrow> int \<times> int \<Rightarrow> int list" where
  "step_move a b =
     (let dr = fst b - fst a; dc = snd b - snd a
      in if dr = - 1 \<and> dc = 0 then [0]
         else if dr = 0 \<and> dc = 1 then [1]
         else if dr = 1 \<and> dc = 0 then [2]
         else if dr = 0 \<and> dc = - 1 then [3]
         else [])"

fun moves_between :: "(int \<times> int) list \<Rightarrow> int list" where
  "moves_between (a # b # rest) = step_move a b @ moves_between (b # rest)"
| "moves_between _ = []"

text \<open>
  The normalisation in the words of the claim as it was stated: when a coordinate
  magnitude exceeds \<open>L\<close>, the pairs with both components odd are halved and the others
  are dropped.
\<close>

definition dropping_pairs :: "(int \<times> int) list \<Rightarrow> int \<Rightarrow> (int \<times> int) list" where
  "dropping_pairs ps L =
     (if list_ex (\<lambda>p. \<bar>fst p\<bar> > L \<or> \<bar>snd p\<bar> > L) ps
      then map (\<lambda>p. ((fst p - 1) div 2, (snd p - 1) div 2))
             (filter (\<lambda>p. odd (fst p) \<and> odd (snd p)) ps)
      else ps)"

text \<open>A coordinate pair of integers as the two values a destructuring binds.\<close>

definition pair_value :: "int \<times> int \<Rightarrow> json option \<times> json option" where
  "pair_value p = (Some (JNum (fst p)), Some (JNum (snd p)))"

section \<open>Properties of the path-tracking engine\<close>

lemma firstDivergence_loop_None:
  "firstDivergence_loop p s len i = None \<longleftrightarrow> (\<forall>j. i \<le> j \<and> j < len \<longrightarrow> p ! j = s ! j)"
proof (induction p s len i rule: firstDivergence_loop.induct)
  case (1 p s len i)
  show ?case
  proof (cases "i < len")
    case False
    then show ?thesis by (simp add: firstDivergence_loop.simps [of p s len i])
  next
    case True
    show ?thesis
    proof (cases "p ! i = s ! i")
      case False
      with True show ?thesis
        by (auto simp: firstDivergence_loop.simps [of p s len i])
    next
      case eq: True
      have "(\<forall>j. i \<le> j \<and> j < len \<longrightarrow> p ! j = s ! j) \<longleftrightarrow>
            (\<forall>j. i + 1 \<le> j \<and> j < len \<longrightarrow> p ! j = s ! j)"
        using eq by (metis Suc_eq_plus1 Suc_leI le_neq_implies_less add_leD1 le_add1 le_trans)
      with True eq "1.IH" show ?thesis
        by (simp add: firstDivergence_loop.simps [of p s len i])
    qed
  qed
qed

lemma firstDivergence_loop_Some:
  "firstDivergence_loop p s len i = Some k \<longleftrightarrow>
     (i \<le> k \<and> k < len \<and> p ! k \<noteq> s ! k \<and> (\<forall>j. i \<le> j \<and> j < k \<longrightarrow> p ! j = s ! j))"
proof (induction p s len i rule: firstDivergence_loop.induct)
  case (1 p s len i)
  show ?case
  proof (cases "i < len")
    case False
    then show ?thesis by (auto simp: firstDivergence_loop.simps [of p s len i])
  next
    case True
    show ?thesis
    proof (cases "p ! i = s ! i")
      case False
      with True show ?thesis
        by (auto simp: firstDivergence_loop.simps [of p s len i])
    next
      case eq: True
      have "(i \<le> k \<and> k < len \<and> p ! k \<noteq> s ! k \<and> (\<forall>j. i \<le> j \<and> j < k \<longrightarrow> p ! j = s ! j)) \<longleftrightarrow>
            (i + 1 \<le> k \<and> k < len \<and> p ! k \<noteq> s ! k \<and> (\<forall>j. i + 1 \<le> j \<and> j < k \<longrightarrow> p ! j = s ! j))"
        using eq
        by (metis Suc_eq_plus1 Suc_leI le_neq_implies_less add_leD1 le_add1 le_trans)
      with True eq "1.IH" show ?thesis
        by (simp add: firstDivergence_loop.simps [of p s len i])
    qed
  qed
qed


text \<open>
  Claim C3. If the player's moves are a prefix of the reference moves (equal included),
  \<open>firstDivergence\<close> returns \<open>-1\<close>; if the two sequences differ at a position below the
  shorter length, it returns the least such position; and if the player's sequence is
  strictly longer and the reference is a prefix of it, it returns the reference's length.
\<close>

theorem firstDivergence_cases:
  "(prefix playerMoves referenceMoves \<longrightarrow> firstDivergence playerMoves referenceMoves = - 1) \<and>
   (\<forall>i. i < min (length playerMoves) (length referenceMoves) \<and>
        playerMoves ! i \<noteq> referenceMoves ! i \<and>
        (\<forall>j < i. playerMoves ! j = referenceMoves ! j)
        \<longrightarrow> firstDivergence playerMoves referenceMoves = int i) \<and>
   (length playerMoves > length referenceMoves \<and> prefix referenceMoves playerMoves
        \<longrightarrow> firstDivergence playerMoves referenceMoves = int (length referenceMoves))"
proof (intro conjI impI allI)
  assume pre: "prefix playerMoves referenceMoves"
  then have len: "length playerMoves \<le> length referenceMoves"
    by (rule prefix_length_le)
  from pre have "\<forall>j. j < length playerMoves \<longrightarrow> playerMoves ! j = referenceMoves ! j"
    by (auto simp: prefix_def nth_append)
  then have "firstDivergence_loop playerMoves referenceMoves
               (min (length playerMoves) (length referenceMoves)) 0 = None"
    by (simp add: firstDivergence_loop_None)
  with len show "firstDivergence playerMoves referenceMoves = - 1"
    by (simp add: firstDivergence_def)
next
  fix i
  assume "i < min (length playerMoves) (length referenceMoves) \<and>
          playerMoves ! i \<noteq> referenceMoves ! i \<and>
          (\<forall>j < i. playerMoves ! j = referenceMoves ! j)"
  then have "firstDivergence_loop playerMoves referenceMoves
               (min (length playerMoves) (length referenceMoves)) 0 = Some i"
    by (simp add: firstDivergence_loop_Some)
  then show "firstDivergence playerMoves referenceMoves = int i"
    by (simp add: firstDivergence_def)
next
  assume a: "length playerMoves > length referenceMoves \<and> prefix referenceMoves playerMoves"
  then have "\<forall>j. j < length referenceMoves \<longrightarrow> playerMoves ! j = referenceMoves ! j"
    by (auto simp: prefix_def nth_append)
  then have "firstDivergence_loop playerMoves referenceMoves
               (min (length playerMoves) (length referenceMoves)) 0 = None"
    by (simp add: firstDivergence_loop_None)
  with a show "firstDivergence playerMoves referenceMoves = int (length referenceMoves)"
    by (simp add: firstDivergence_def)
qed

theorem firstDivergence_cases_witness:
  "(prefix [0, 1, 2] [0, 1, 2, 3 :: int] \<and> firstDivergence [0, 1, 2] [0, 1, 2, 3] = - 1) \<and>
   ((1::nat) < min (length [0, 2 :: int]) (length [0, 1, 2 :: int]) \<and>
    [0, 2 :: int] ! 1 \<noteq> [0, 1, 2] ! 1 \<and> [0, 2 :: int] ! 0 = [0, 1, 2] ! 0 \<and>
    firstDivergence [0, 2] [0, 1, 2] = int 1) \<and>
   (length [0, 1, 2, 3 :: int] > length [0, 1, 2 :: int] \<and> prefix [0, 1, 2] [0, 1, 2, 3 :: int] \<and>
    firstDivergence [0, 1, 2, 3] [0, 1, 2] = int (length [0, 1, 2 :: int]))"
proof -
  have p: "prefix [0, 1, 2] [0, 1, 2, 3 :: int]" by simp
  have d: "(1::nat) < min (length [0, 2 :: int]) (length [0, 1, 2 :: int]) \<and>
           [0, 2 :: int] ! 1 \<noteq> [0, 1, 2] ! 1 \<and> (\<forall>j < (1::nat). [0, 2 :: int] ! j = [0, 1, 2] ! j)"
    by simp
  have l: "length [0, 1, 2, 3 :: int] > length [0, 1, 2 :: int] \<and> prefix [0, 1, 2] [0, 1, 2, 3 :: int]"
    by simp
  have 1: "firstDivergence [0, 1, 2] [0, 1, 2, 3] = - 1"
    using firstDivergence_cases [of "[0, 1, 2]" "[0, 1, 2, 3]"] p by blast
  have 2: "firstDivergence [0, 2] [0, 1, 2] = int 1"
    using firstDivergence_cases [of "[0, 2]" "[0, 1, 2]"] d by blast
  have 3: "firstDivergence [0, 1, 2, 3] [0, 1, 2] = int (length [0, 1, 2 :: int])"
    using firstDivergence_cases [of "[0, 1, 2, 3]" "[0, 1, 2]"] l by blast
  have e: "[0, 2 :: int] ! 0 = [0, 1, 2] ! 0" by simp
  from p d l e 1 2 3 show ?thesis by blast
qed

lemma js_slice_from_0:
  "0 \<le> n \<Longrightarrow> js_slice xs 0 n = take (nat n) xs"
  by (auto simp: js_slice_def Let_def min_def)

lemma js_slice_nonneg:
  "0 \<le> a \<Longrightarrow> 0 \<le> n \<Longrightarrow> a \<le> int (length xs) \<Longrightarrow>
   js_slice xs a (a + n) = take (nat n) (drop (nat a) xs)"
  by (auto simp: js_slice_def Let_def min_def)

lemma hintSegment_window:
  fixes clamped :: "int list"
  assumes clen: "clen = int (length clamped)"
    and cp: "clampedProgress = max 0 (min progress clen)"
    and cd: "clampedDivergence = (if divergence \<ge> 0 then min divergence clen else - 1)"
    and st: "start = max clampedProgress
                      (if clampedDivergence \<ge> 0 then clampedDivergence else clampedProgress)"
    and rm: "remaining = max 0 (clen - start)"
    and tk: "takeCount = (if remaining \<ge> 20 then 20 else min 10 remaining)"
    and st': "start' = (if divergence \<ge> 0
                       then max clampedProgress (max 0 (min divergence clen))
                       else clampedProgress)"
    and rm': "remaining' = clen - start'"
    and n: "n = (if remaining' \<ge> 20 then 20 else min 10 remaining')"
  shows "(if remaining = 0 then [] else js_slice clamped start (start + takeCount)) =
         take (nat n) (drop (nat start') clamped)"
proof -
  have clen0: "0 \<le> clen" by (simp add: clen)
  have cp_range: "0 \<le> clampedProgress" "clampedProgress \<le> clen"
    using clen0 by (auto simp: cp)
  have start_eq: "start = start'"
  proof (cases "divergence \<ge> 0")
    case True
    then have "clampedDivergence = min divergence clen" "0 \<le> clampedDivergence"
      using clen0 by (auto simp: cd)
    with True show ?thesis by (simp add: st st')
  next
    case False
    then have "clampedDivergence = - 1" by (simp add: cd)
    with False show ?thesis by (simp add: st st')
  qed
  have start_range: "0 \<le> start" "start \<le> clen"
    using cp_range clen0 by (auto simp: st cd)
  have rem_eq: "remaining = remaining'" "0 \<le> remaining"
    using start_range start_eq by (auto simp: rm rm')
  have tk_eq: "takeCount = n" "0 \<le> n"
    using rem_eq by (auto simp: tk n)
  show ?thesis
  proof (cases "remaining = 0")
    case True
    then have "n = 0" using rem_eq by (simp add: n)
    with True show ?thesis by simp
  next
    case False
    have "js_slice clamped start (start + n) = take (nat n) (drop (nat start) clamped)"
      using start_range tk_eq(2) by (intro js_slice_nonneg) (auto simp: clen)
    with False show ?thesis by (simp add: tk_eq start_eq)
  qed
qed

text \<open>
  Claim C4, as stated: for all integers \<open>progress\<close>, \<open>divergenceIndex\<close> and \<open>cap\<close> the
  function computes the specified hint window. It fails for a negative \<open>cap\<close>: \<open>slice(0, L)\<close>
  with a negative \<open>L\<close> drops entries from the end instead of keeping none.
\<close>

theorem hintSegment_negative_cap_counterexample:
  "hintSegment [0, 1, 2] 0 (- 1) (- 1) = [0, 1] \<and>
   hintSegment_spec [0, 1, 2] 0 (- 1) (- 1) = [] \<and>
   hintSegment [0, 1, 2] 0 (- 1) (- 1) \<noteq> hintSegment_spec [0, 1, 2] 0 (- 1) (- 1)"
  by (simp add: hintSegment_def hintSegment_spec_def js_slice_def Let_def)

text \<open>
  Claim C4, amended: for every reference sequence, all integers \<open>progress\<close> and
  \<open>divergenceIndex\<close> and every non-negative integer \<open>cap\<close>, \<open>hintSegment\<close> returns the
  specified window: the slice of the first \<open>cap\<close> entries that starts at the larger of the
  clamped progress and the clamped divergence index and holds 20 moves when at least 20
  remain, \<open>min 10 remaining\<close> otherwise.
\<close>

theorem hintSegment_refines_spec:
  assumes "0 \<le> cap"
  shows "hintSegment referenceMoves progress divergenceIndex cap =
         hintSegment_spec referenceMoves progress divergenceIndex cap"
  unfolding hintSegment_def hintSegment_spec_def Let_def js_slice_from_0 [OF assms]
  by (rule hintSegment_window) (rule refl)+

theorem hintSegment_refines_spec_witness:
  "(0::int) \<le> 30 \<and>
   hintSegment [0, 1, 2, 3, 0, 1, 2, 3, 0, 1, 2, 3, 0, 1, 2, 3, 0, 1, 2, 3, 0, 1, 2, 3, 0, 1, 2, 3, 0, 1]
     5 (- 1) 30 =
   hintSegment_spec [0, 1, 2, 3, 0, 1, 2, 3, 0, 1, 2, 3, 0, 1, 2, 3, 0, 1, 2, 3, 0, 1, 2, 3, 0, 1, 2, 3, 0, 1]
     5 (- 1) 30"
proof -
  have h: "(0::int) \<le> 30" by simp
  show ?thesis
    using hintSegment_refines_spec [OF h] h by blast
qed

section \<open>Properties of the Base64 decoder\<close>

lemma BASE64_ALPHABET_length: "length BASE64_ALPHABET = 64"
  by (simp add: BASE64_ALPHABET_def js_string_def)

lemma BASE64_ALPHABET_distinct: "distinct BASE64_ALPHABET"
  by (simp add: BASE64_ALPHABET_def js_string_def)

lemma BASE64_ALPHABET_range: "c \<in> set BASE64_ALPHABET \<Longrightarrow> c < 256 \<and> c \<noteq> 61"
  by (auto simp: BASE64_ALPHABET_def js_string_def)

lemma fold_update_length:
  "length (fold (\<lambda>i t. t[k i := v i]) js t) = length t"
  by (induction js arbitrary: t) auto

lemma fold_update_other:
  "p \<notin> k ` set js \<Longrightarrow> fold (\<lambda>i t. t[k i := v i]) js t ! p = t ! p"
  by (induction js arbitrary: t) auto

lemma fold_update_nth:
  "distinct (map k js) \<Longrightarrow> j \<in> set js \<Longrightarrow> k j < length t \<Longrightarrow>
   fold (\<lambda>i t. t[k i := v i]) js t ! k j = v j"
proof (induction js arbitrary: t)
  case Nil
  then show ?case by simp
next
  case (Cons x js)
  show ?case
  proof (cases "j = x")
    case True
    with Cons.prems show ?thesis
      by (simp add: fold_update_other)
  next
    case False
    with Cons.prems Cons.IH [of "t[k x := v x]"] show ?thesis by simp
  qed
qed

lemma BASE64_LOOKUP_length: "length BASE64_LOOKUP = 256"
  by (simp add: BASE64_LOOKUP_def Let_def fold_update_length)

lemma map_nth_alphabet: "map ((!) BASE64_ALPHABET) [0 ..< length BASE64_ALPHABET] = BASE64_ALPHABET"
  by (rule map_nth)

lemma BASE64_LOOKUP_digit:
  assumes "i < 64"
  shows "BASE64_LOOKUP ! (BASE64_ALPHABET ! i) = of_nat i"
proof -
  have mem: "BASE64_ALPHABET ! i \<in> set BASE64_ALPHABET"
    using assms by (simp add: BASE64_ALPHABET_length)
  then have r: "BASE64_ALPHABET ! i < 256" "BASE64_ALPHABET ! i \<noteq> 61"
    using BASE64_ALPHABET_range by blast+
  have d: "distinct (map ((!) BASE64_ALPHABET) [0 ..< length BASE64_ALPHABET])"
    by (simp only: map_nth BASE64_ALPHABET_distinct)
  have m: "i \<in> set [0 ..< length BASE64_ALPHABET]"
    using assms by (simp add: BASE64_ALPHABET_length)
  have "fold (\<lambda>i t. t[BASE64_ALPHABET ! i := of_nat i]) [0 ..< length BASE64_ALPHABET]
          (replicate 256 (255 :: byte)) ! (BASE64_ALPHABET ! i) = of_nat i"
    using r by (intro fold_update_nth [OF d m]) simp
  with r show ?thesis
    by (simp add: BASE64_LOOKUP_def Let_def)
qed

lemma BASE64_LOOKUP_pad: "BASE64_LOOKUP ! 61 = 0"
  by (simp add: BASE64_LOOKUP_def Let_def fold_update_length)

lemma BASE64_LOOKUP_invalid:
  assumes "c < 256" "\<not> is_base64_char c"
  shows "BASE64_LOOKUP ! c = 255"
proof -
  have "c \<notin> (!) BASE64_ALPHABET ` set [0 ..< length BASE64_ALPHABET]"
    using assms(2) by (auto simp: is_base64_char_def)
  then have "fold (\<lambda>i t. t[BASE64_ALPHABET ! i := of_nat i]) [0 ..< length BASE64_ALPHABET]
          (replicate 256 (255 :: byte)) ! c = replicate 256 (255 :: byte) ! c"
    by (rule fold_update_other)
  with assms show ?thesis
    by (simp add: BASE64_LOOKUP_def Let_def is_base64_char_def)
qed

lemma lookup_digit: "i < 64 \<Longrightarrow> lookup (Some (BASE64_ALPHABET ! i)) = of_nat i"
  using BASE64_ALPHABET_range [of "BASE64_ALPHABET ! i"]
  by (simp add: lookup_def BASE64_LOOKUP_length BASE64_LOOKUP_digit BASE64_ALPHABET_length
      unsigned_of_nat take_bit_nat_eq_self)

lemma lookup_A: "lookup (Some 65) = 0"
  using lookup_digit [of 0] by (simp add: BASE64_ALPHABET_def js_string_def)

lemma lookup_pad: "lookup (Some 61) = 0"
  by (simp add: lookup_def BASE64_LOOKUP_length BASE64_LOOKUP_pad)

lemma lookup_invalid: "c < 256 \<Longrightarrow> \<not> is_base64_char c \<Longrightarrow> lookup (Some c) = 255"
  by (simp add: lookup_def BASE64_LOOKUP_length BASE64_LOOKUP_invalid)

lemma lookup_wide: "256 \<le> c \<Longrightarrow> lookup (Some c) = 0"
  by (simp add: lookup_def BASE64_LOOKUP_length)

lemma decode_loop_length:
  "length (decode_loop s bl i out oi) = length out"
proof (induction "length s - i" arbitrary: i out oi rule: less_induct)
  case less
  show ?case
  proof (cases "i < length s")
    case True
    then have "length s - (i + 4) < length s - i" by simp
    from less [OF this] True show ?thesis
      by (subst decode_loop.simps) (simp add: Let_def)
  next
    case False
    then show ?thesis by (subst decode_loop.simps) simp
  qed
qed

text \<open>
  Claim C9. For every input whose length after stripping whitespace is not a multiple
  of 4, \<open>decodeBase64ToUint8Array\<close> fails with the format error (whatever the
  decompression library does): no byte array is returned.
\<close>

theorem decodeBase64_rejects_bad_length:
  assumes "length (sanitize input) mod 4 \<noteq> 0"
  shows "decodeBase64ToUint8Array pako input = Inl Invalid_base64_input_length"
  using assms by (simp add: decodeBase64ToUint8Array_def)

theorem decodeBase64_rejects_bad_length_witness:
  "length (sanitize (js_string ''QU J'')) mod 4 \<noteq> 0 \<and>
   decodeBase64ToUint8Array None (js_string ''QU J'') = Inl Invalid_base64_input_length"
proof -
  have h: "length (sanitize (js_string ''QU J'')) mod 4 \<noteq> 0"
    by (simp add: sanitize_def js_string_def is_js_space_def)
  from decodeBase64_rejects_bad_length [OF h] h show ?thesis by blast
qed

lemma replicate_3: "replicate 3 x = [x, x, x]"
  by (simp add: numeral_3_eq_3)

lemma lookup_bang: "lookup (Some 33) = 255"
  by (rule lookup_invalid) (simp_all add: is_base64_char_def BASE64_ALPHABET_def js_string_def)

lemma decode_bang: "decodeBase64ToUint8Array None (js_string ''!AAA'') = Inr [252, 0, 0]"
  by (simp add: decodeBase64ToUint8Array_def sanitize_def is_js_space_def decode_raw_def
      endsWith_def js_string_def decode_loop.simps charCodeAt_def lookup_bang lookup_A Let_def
      replicate_3)

lemma decode_AAAA: "decodeBase64ToUint8Array None (js_string ''AAAA'') = Inr [0, 0, 0]"
  by (simp add: decodeBase64ToUint8Array_def sanitize_def is_js_space_def decode_raw_def
      endsWith_def js_string_def decode_loop.simps charCodeAt_def lookup_A Let_def
      replicate_3)

lemma zero_invalid_bang: "zero_invalid (js_string ''!AAA'') = js_string ''AAAA''"
  by (simp add: zero_invalid_def is_base64_char_def BASE64_ALPHABET_def js_string_def
      is_js_space_def)

text \<open>
  Claim C6, as stated: an invalid character decodes as the value zero, so that the decoder
  returns the same bytes as for the string with \<open>A\<close> in its place. It does not: the
  sentinel 255 is OR-ed into the chunk, and \<open>!AAA\<close> decodes to \<open>FC 00 00\<close> where
  \<open>AAAA\<close> decodes to \<open>00 00 00\<close>.
\<close>

theorem invalid_char_not_zero_counterexample:
  "length (sanitize (js_string ''!AAA'')) mod 4 = 0 \<and>
   decodeBase64ToUint8Array None (js_string ''!AAA'') = Inr [252, 0, 0] \<and>
   decodeBase64ToUint8Array None (zero_invalid (js_string ''!AAA'')) = Inr [0, 0, 0]"
proof -
  have "length (sanitize (js_string ''!AAA'')) mod 4 = 0"
    by (simp add: sanitize_def js_string_def is_js_space_def)
  then show ?thesis
    by (simp only: zero_invalid_bang decode_bang decode_AAAA simp_thms)
qed

lemma length_takeWhile_mem:
  "c \<in> set xs \<Longrightarrow> length (takeWhile (\<lambda>x. x \<noteq> c) xs) < length xs"
  by (induction xs) auto

lemma digit_index_nth:
  assumes "c \<in> set BASE64_ALPHABET"
  shows "digit_index c < 64 \<and> BASE64_ALPHABET ! digit_index c = c"
proof -
  have l: "digit_index c < length BASE64_ALPHABET"
    unfolding digit_index_def using assms by (rule length_takeWhile_mem)
  from nth_length_takeWhile [OF l [unfolded digit_index_def]]
  have "BASE64_ALPHABET ! digit_index c = c"
    by (simp add: digit_index_def)
  with l show ?thesis by (simp add: BASE64_ALPHABET_length)
qed

lemma lookup_sentinel_value: "lookup (Some c) = sentinel_value c"
proof (cases "c \<in> set BASE64_ALPHABET")
  case True
  from digit_index_nth [OF True] lookup_digit [of "digit_index c"] True
  show ?thesis by (simp add: sentinel_value_def)
next
  case False
  show ?thesis
  proof (cases "c = 61")
    case True
    with False show ?thesis by (simp add: sentinel_value_def lookup_pad)
  next
    case ne: False
    show ?thesis
    proof (cases "c < 256")
      case True
      with False ne show ?thesis
        by (simp add: sentinel_value_def lookup_invalid is_base64_char_def)
    next
      case False
      with \<open>c \<notin> set BASE64_ALPHABET\<close> ne show ?thesis
        by (simp add: sentinel_value_def lookup_wide)
    qed
  qed
qed

lemma decode_loop_finished: "\<not> i < length s \<Longrightarrow> decode_loop s bl i out oi = out"
  by (subst decode_loop.simps) simp

lemma decode_loop_full:
  "length out \<le> oi \<Longrightarrow> bl \<le> length out \<Longrightarrow> decode_loop s bl i out oi = out"
proof (induction "length s - i" arbitrary: i oi rule: less_induct)
  case less
  show ?case
  proof (cases "i < length s")
    case True
    then have m: "length s - (i + 4) < length s - i" by simp
    have u: "out[oi := v] = out" for v
      using less.prems by (intro list_update_beyond) simp
    have n: "\<not> oi + 1 < bl"
      using less.prems by simp
    have "decode_loop s bl i out oi = decode_loop s bl (i + 4) out (oi + 1)"
      by (subst decode_loop.simps) (simp only: True if_True Let_def u n if_False)
    also have "\<dots> = out"
      using less.prems by (intro less.hyps [OF m]) simp_all
    finally show ?thesis .
  next
    case False
    then show ?thesis by (rule decode_loop_finished)
  qed
qed

lemma code_at_append:
  "k < length t \<Longrightarrow> charCodeAt (pre @ t) (length pre + k) = Some (t ! k)"
  by (simp add: charCodeAt_def nth_append)

lemma update_take1:
  "oi + 1 \<le> length out \<Longrightarrow> take (oi + 1) (out[oi := a]) = take oi out @ [a]"
  by (auto simp: list_eq_iff_nth_eq nth_append nth_list_update)

lemma update_take2:
  "oi + 2 \<le> length out \<Longrightarrow>
   take (oi + 2) (out[oi := a, oi + 1 := b]) = take oi out @ [a, b]"
  by (auto simp: list_eq_iff_nth_eq nth_append nth_list_update nth_Cons')

lemma update_take3:
  "oi + 3 \<le> length out \<Longrightarrow>
   take (oi + 3) (out[oi := a, oi + 1 := b, oi + 1 + 1 := c]) = take oi out @ [a, b, c]"
  by (auto simp: list_eq_iff_nth_eq nth_append nth_list_update nth_Cons')

lemma length_sentinel_chunks: "length (sentinel_chunks s) = (length s div 4) * 3"
proof (induction s rule: sentinel_chunks.induct)
  case (1 c0 c1 c2 c3 rest)
  have "(4 + length rest) div 4 = Suc (length rest div 4)" by simp
  with 1 show ?case by (simp add: Let_def)
qed simp_all

lemma decode_loop_sentinel:
  "length out = bl \<Longrightarrow> oi \<le> bl \<Longrightarrow> bl - oi \<le> length (sentinel_chunks s) \<Longrightarrow>
   decode_loop (pre @ s) bl (length pre) out oi = take oi out @ take (bl - oi) (sentinel_chunks s)"
proof (induction s arbitrary: pre out oi rule: sentinel_chunks.induct)
  case (1 c0 c1 c2 c3 rest)
  let ?s = "pre @ c0 # c1 # c2 # c3 # rest"
  define chunk where "chunk = push_bit 18 (sentinel_value c0) OR push_bit 12 (sentinel_value c1) OR
                  push_bit 6 (sentinel_value c2) OR sentinel_value c3"
  define b0 :: byte where "b0 = ucast (drop_bit 16 chunk AND 0xff)"
  define b1 :: byte where "b1 = ucast (drop_bit 8 chunk AND 0xff)"
  define b2 :: byte where "b2 = ucast (chunk AND 0xff)"
  have sc: "sentinel_chunks (c0 # c1 # c2 # c3 # rest) = [b0, b1, b2] @ sentinel_chunks rest"
    by (simp add: Let_def chunk_def b0_def b1_def b2_def)
  have l: "length pre < length ?s" by simp
  have c: "lookup (charCodeAt ?s (length pre)) = sentinel_value c0"
       "lookup (charCodeAt ?s (length pre + 1)) = sentinel_value c1"
       "lookup (charCodeAt ?s (length pre + 2)) = sentinel_value c2"
       "lookup (charCodeAt ?s (length pre + 3)) = sentinel_value c3"
    using code_at_append [of 0 "c0 # c1 # c2 # c3 # rest" pre]
      code_at_append [of 1 "c0 # c1 # c2 # c3 # rest" pre]
      code_at_append [of 2 "c0 # c1 # c2 # c3 # rest" pre]
      code_at_append [of 3 "c0 # c1 # c2 # c3 # rest" pre]
    by (simp_all add: lookup_sentinel_value)
  define o1 where "o1 = out[oi := b0]"
  define o2 where "o2 = (if oi + 1 < bl then o1[oi + 1 := b1] else o1)"
  define i2 where "i2 = (if oi + 1 < bl then oi + 1 + 1 else oi + 1)"
  define o3 where "o3 = (if i2 < bl then o2[i2 := b2] else o2)"
  define i3 where "i3 = (if i2 < bl then i2 + 1 else i2)"
  have step: "decode_loop ?s bl (length pre) out oi = decode_loop ?s bl (length pre + 4) o3 i3"
    using l c
    by (subst decode_loop.simps)
       (simp add: Let_def chunk_def b0_def b1_def b2_def o1_def o2_def i2_def o3_def i3_def)
  have s: "?s = (pre @ [c0, c1, c2, c3]) @ rest" "length pre + 4 = length (pre @ [c0, c1, c2, c3])"
    by simp_all
  have lo3: "length o3 = length out"
    by (simp add: o3_def o2_def o1_def)
  show ?case
  proof (cases "oi = bl")
    case True
    have "decode_loop ?s bl (length pre) out oi = out"
      using True "1.prems" by (intro decode_loop_full) simp_all
    with True "1.prems" show ?thesis by simp
  next
    case False
    with "1.prems" have lt: "oi < bl" by simp
    consider (a) "oi + 1 = bl" | (b) "oi + 2 = bl" | (c) "oi + 3 \<le> bl"
      using lt by linarith
    then show ?thesis
    proof cases
      case a
      then have v: "o3 = o1" "i3 = bl"
        by (simp_all add: o3_def o2_def i2_def i3_def)
      have "decode_loop ?s bl (length pre + 4) o3 i3 = o1"
        unfolding v using "1.prems" by (intro decode_loop_full) (simp_all add: o1_def)
      also have "o1 = take (oi + 1) (out[oi := b0])"
        using a "1.prems" by (simp add: o1_def)
      also have "\<dots> = take oi out @ [b0]"
        using a "1.prems" by (intro update_take1) simp
      finally show ?thesis
        unfolding step sc using a by (simp add: take_Cons')
    next
      case b
      then have v: "o3 = out[oi := b0, oi + 1 := b1]" "i3 = bl"
        by (simp_all add: o3_def o2_def o1_def i2_def i3_def)
      have "decode_loop ?s bl (length pre + 4) o3 i3 = o3"
        unfolding v(2) using "1.prems" lo3 by (intro decode_loop_full) simp_all
      also have "o3 = take (oi + 2) (out[oi := b0, oi + 1 := b1])"
        using b "1.prems" by (simp add: v)
      also have "\<dots> = take oi out @ [b0, b1]"
        using b "1.prems" by (intro update_take2) simp
      finally show ?thesis
        unfolding step sc using b by (simp add: take_Cons')
    next
      case c
      then have v: "o3 = out[oi := b0, oi + 1 := b1, oi + 1 + 1 := b2]" "i3 = oi + 3"
        by (simp_all add: o3_def o2_def o1_def i2_def i3_def)
      have "decode_loop ?s bl (length pre + 4) o3 i3 =
            decode_loop ((pre @ [c0, c1, c2, c3]) @ rest) bl (length (pre @ [c0, c1, c2, c3])) o3 (oi + 3)"
        unfolding v(2) s(2) by (simp only: s(1))
      also have "\<dots> = take (oi + 3) o3 @ take (bl - (oi + 3)) (sentinel_chunks rest)"
        using "1.prems" c lo3 by (intro "1.IH") (simp_all add: sc)
      also have "take (oi + 3) o3 = take oi out @ [b0, b1, b2]"
        unfolding v(1) using c "1.prems" by (intro update_take3) simp
      finally have r: "decode_loop ?s bl (length pre + 4) o3 i3 =
          take oi out @ [b0, b1, b2] @ take (bl - (oi + 3)) (sentinel_chunks rest)"
        by simp
      from c have d: "bl - oi = Suc (Suc (Suc (bl - (oi + 3))))" by simp
      show ?thesis
        unfolding step sc r d by simp
    qed
  qed
qed (simp_all add: decode_loop_finished decode_loop_full)

lemma decode_raw_sentinel: "decode_raw s = sentinel_decode s"
proof -
  define bl where "bl = (length s div 4) * 3 -
           (if endsWith s (js_string ''=='') then 2
            else if endsWith s (js_string ''='') then 1 else (0::nat))"
  have "decode_loop ([] @ s) bl (length ([] :: nat list)) (replicate bl 0) 0 =
        take 0 (replicate bl 0) @ take (bl - 0) (sentinel_chunks s)"
    by (rule decode_loop_sentinel) (simp_all add: length_sentinel_chunks bl_def)
  then show ?thesis
    by (simp add: decode_raw_def sentinel_decode_def Let_def bl_def)
qed

lemma sentinel_value_Q: "sentinel_value 81 = 16"
  by (simp add: sentinel_value_def digit_index_def BASE64_ALPHABET_def js_string_def)

lemma sentinel_value_U: "sentinel_value 85 = 20"
  by (simp add: sentinel_value_def digit_index_def BASE64_ALPHABET_def js_string_def)

lemma sentinel_value_star: "sentinel_value 42 = 255"
  by (simp add: sentinel_value_def digit_index_def BASE64_ALPHABET_def js_string_def)

lemma sentinel_value_D: "sentinel_value 68 = 3"
  by (simp add: sentinel_value_def digit_index_def BASE64_ALPHABET_def js_string_def)

lemma sentinel_decode_star:
  "sentinel_decode (sanitize (js_string ''QU*D'')) = [65, 127, 195]"
  by (simp add: sentinel_decode_def sanitize_def is_js_space_def endsWith_def js_string_def
      sentinel_value_Q sentinel_value_U sentinel_value_star sentinel_value_D Let_def)

text \<open>
  Claim C6, amended. For every input whose length after stripping whitespace is a multiple
  of 4, \<open>decodeBase64ToUint8Array\<close> raises no error, and an invalid character
  silently corrupts the result. A character outside the alphabet and \<open>=\<close> is not
  treated as zero: it contributes the sentinel 255 when its code is below 256 (and zero
  from 256 on), and that value is shifted and OR-ed into the 24-bit chunk of its group
  unmasked. The bytes decoded are exactly the bytes of the chunks so built, three per
  group less the padding (\<open>sentinel_decode\<close>); they are the result whenever the
  input does not start with \<open>eJ\<close> or the decompression library is missing, and
  otherwise the result is what the library inflates them to, or they themselves when it
  fails or returns nothing.
\<close>

theorem invalid_char_sentinel:
  assumes "length (sanitize input) mod 4 = 0"
  shows "(\<exists>bytes. decodeBase64ToUint8Array pako input = Inr bytes) \<and>
         (take 2 (sanitize input) \<noteq> js_string ''eJ'' \<or> pako = None \<longrightarrow>
            decodeBase64ToUint8Array pako input = Inr (sentinel_decode (sanitize input))) \<and>
         (\<forall>inflate. take 2 (sanitize input) = js_string ''eJ'' \<and> pako = Some inflate \<longrightarrow>
            decodeBase64ToUint8Array pako input =
              Inr (case inflate (sentinel_decode (sanitize input)) of
                     None \<Rightarrow> sentinel_decode (sanitize input)
                   | Some inflated \<Rightarrow>
                       if inflated \<noteq> [] then inflated else sentinel_decode (sanitize input)))"
  using assms
  by (auto simp: decodeBase64ToUint8Array_def Let_def decode_raw_sentinel split: option.splits)

theorem invalid_char_sentinel_witness:
  "length (sanitize (js_string ''QU*D'')) mod 4 = 0 \<and>
   (\<exists>bytes. decodeBase64ToUint8Array None (js_string ''QU*D'') = Inr bytes) \<and>
   decodeBase64ToUint8Array None (js_string ''QU*D'') =
     Inr (sentinel_decode (sanitize (js_string ''QU*D''))) \<and>
   sentinel_decode (sanitize (js_string ''QU*D'')) = [65, 127, 195]"
proof -
  have h: "length (sanitize (js_string ''QU*D'')) mod 4 = 0"
    by (simp add: sanitize_def js_string_def is_js_space_def)
  from invalid_char_sentinel [OF h, of None] h sentinel_decode_star show ?thesis by blast
qed

section \<open>Properties of the opening masks\<close>

lemma DIRECTION_MASK_exp:
  "DIRECTION_MASK_N = 2 ^ 0" "DIRECTION_MASK_E = 2 ^ 1"
  "DIRECTION_MASK_S = 2 ^ 2" "DIRECTION_MASK_W = 2 ^ 3"
  by (simp_all add: DIRECTION_MASK_N_def DIRECTION_MASK_E_def DIRECTION_MASK_S_def
      DIRECTION_MASK_W_def)

lemma byte_and_exp: "(m AND (2 ^ n :: byte) \<noteq> 0) \<longleftrightarrow> bit m n"
  by (simp add: and_exp_eq_0_iff_not_bit)

lemma byte_bit_or_exp: "n < 8 \<Longrightarrow> bit (m OR (2 ^ n :: byte)) k \<longleftrightarrow> bit m k \<or> k = n"
  by (auto simp: bit_simps)

lemma byte_bit_strip: "bit (m AND NOT (2 ^ n :: byte)) k \<longleftrightarrow> bit m k \<and> k \<noteq> n"
  by (auto simp: bit_simps dest: bit_imp_le_length)

lemma mask_at_set_mask:
  "mask_at (set_mask ops i m) j =
     (if j = i \<and> 0 \<le> i \<and> i < int (length ops) then m else mask_at ops j)"
  by (auto simp: mask_at_def set_mask_def)

lemma grows_refl: "grows w h ops ops"
  by (simp add: grows_def)

lemma grows_trans: "grows w h a b \<Longrightarrow> grows w h b c \<Longrightarrow> grows w h a c"
  unfolding grows_def by blast

lemma clean_grows: "grows w h ops ops' \<Longrightarrow> clean w h ops j \<Longrightarrow> clean w h ops' j"
  unfolding grows_def clean_def by blast

lemma grows_set_mask:
  assumes "\<And>d. bit m d \<Longrightarrow> bit (mask_at ops (int j)) d \<or> \<not> outside_dir w h (j div w) (j mod w) d"
  shows "grows w h ops (set_mask ops (int j) m)"
  unfolding grows_def using assms by (auto simp: mask_at_set_mask)

lemma normalize_cell_steps:
  "normalize_cell w h ops y x =
     (let idx = y * w + x;
          m = stripped w h y x (mask_at ops (int idx));
          ops1 = set_mask ops (int idx) m;
          ops2 = (if int x < int w - 1 then east_west idx x m ops1 else ops1)
      in if int y < int h - 1 then north_south idx w m ops2 else ops2)"
  unfolding normalize_cell_def stripped_def east_west_def north_south_def Let_def
  by (rule refl)

lemma cell_div_mod:
  fixes x y w :: nat
  shows "x < w \<Longrightarrow> (y * w + x) div w = y \<and> (y * w + x) mod w = x"
  using div_mult_self3 [of w y x] mod_mult_self3 [of y w x] by simp

lemma bit_strip_if:
  "bit (if c then m AND NOT (2 ^ n :: byte) else m) d \<longleftrightarrow> bit m d \<and> \<not> (c \<and> d = n)"
  by (simp add: byte_bit_strip)

lemma stripped_bits:
  assumes "x < w" "y < h" "bit (stripped w h y x m0) d"
  shows "bit m0 d \<and> \<not> outside_dir w h y x d"
proof -
  have e: "int x = int w - 1 \<longleftrightarrow> x = w - 1" "int y = int h - 1 \<longleftrightarrow> y = h - 1"
    using assms(1,2) by auto
  have "bit m0 d \<and> \<not> (x = 0 \<and> d = 3) \<and> \<not> (x = w - 1 \<and> d = 1) \<and>
        \<not> (y = 0 \<and> d = 0) \<and> \<not> (y = h - 1 \<and> d = 2)"
    using assms(3)
    by (simp only: stripped_def Let_def e DIRECTION_MASK_exp bit_strip_if) blast
  then show ?thesis
    unfolding outside_dir_def by blast
qed

lemma grows_or_bit:
  assumes "n < 8" "\<not> outside_dir w h (j div w) (j mod w) n"
  shows "grows w h ops (set_mask ops (int j) (mask_at ops (int j) OR 2 ^ n))"
proof (rule grows_set_mask)
  fix d assume "bit (mask_at ops (int j) OR 2 ^ n) d"
  then have "bit (mask_at ops (int j)) d \<or> d = n"
    using assms(1) by (simp add: byte_bit_or_exp)
  with assms(2) show "bit (mask_at ops (int j)) d \<or> \<not> outside_dir w h (j div w) (j mod w) d"
    by blast
qed

lemma grows_set_inside:
  assumes "n < 8" "\<not> outside_dir w h (j div w) (j mod w) n"
    and "\<And>d. bit m d \<Longrightarrow> \<not> outside_dir w h (j div w) (j mod w) d"
  shows "grows w h ops (set_mask ops (int j) (m OR 2 ^ n))"
proof (rule grows_set_mask)
  fix d assume "bit (m OR 2 ^ n) d"
  then have "bit m d \<or> d = n"
    using assms(1) by (simp add: byte_bit_or_exp)
  with assms(2,3) show "bit (mask_at ops (int j)) d \<or> \<not> outside_dir w h (j div w) (j mod w) d"
    by blast
qed

lemma east_west_grows:
  assumes "x + 1 < w"
    and m: "\<And>d. bit m d \<Longrightarrow> \<not> outside_dir w h y x d"
  shows "grows w h ops (east_west (y * w + x) x m ops)"
proof -
  define idx where "idx = y * w + x"
  define r where "r = idx + 1"
  have i1: "int idx + 1 = int r" by (simp add: r_def)
  have "r = y * w + (x + 1)" by (simp add: r_def idx_def)
  then have dm1: "r div w = y" "r mod w = x + 1"
    using assms(1) cell_div_mod [of "x + 1" w y] by simp_all
  have dm: "idx div w = y" "idx mod w = x"
    using assms(1) cell_div_mod [of x w y] by (simp_all add: idx_def)
  have W: "grows w h ops (set_mask ops (int r) (mask_at ops (int r) OR 2 ^ 3))"
    by (rule grows_or_bit) (simp_all add: dm1 outside_dir_def)
  have E: "\<And>ops'. grows w h ops' (set_mask ops' (int idx) (m OR 2 ^ 1))"
    using assms(1) m by (intro grows_set_inside) (simp_all add: dm outside_dir_def)
  show ?thesis
    unfolding east_west_def Let_def idx_def [symmetric] i1 DIRECTION_MASK_exp
    using W E [of ops] E [of "set_mask ops (int r) (mask_at ops (int r) OR 2 ^ 3)"]
      grows_refl [of w h ops] grows_trans [OF W]
    by (simp split: if_splits)
qed

lemma north_south_grows:
  assumes "x < w" "y + 1 < h"
    and m: "\<And>d. bit m d \<Longrightarrow> \<not> outside_dir w h y x d"
  shows "grows w h ops (north_south (y * w + x) w m ops)"
proof -
  define idx where "idx = y * w + x"
  define r where "r = idx + w"
  have i1: "int idx + int w = int r" by (simp add: r_def)
  have "r = (y + 1) * w + x" by (simp add: r_def idx_def)
  then have dm1: "r div w = y + 1" "r mod w = x"
    using assms(1) cell_div_mod [of x w "y + 1"] by simp_all
  have dm: "idx div w = y" "idx mod w = x"
    using assms(1) cell_div_mod [of x w y] by (simp_all add: idx_def)
  have N: "grows w h ops (set_mask ops (int r) (mask_at ops (int r) OR 2 ^ 0))"
    by (rule grows_or_bit) (simp_all add: dm1 outside_dir_def)
  have S: "\<And>ops'. grows w h ops' (set_mask ops' (int idx) (m OR 2 ^ 2))"
    using assms(2) m by (intro grows_set_inside) (simp_all add: dm outside_dir_def)
  show ?thesis
    unfolding north_south_def Let_def idx_def [symmetric] i1 DIRECTION_MASK_exp
    using N S [of ops] S [of "set_mask ops (int r) (mask_at ops (int r) OR 2 ^ 0)"]
      grows_refl [of w h ops] grows_trans [OF N]
    by (simp split: if_splits)
qed

lemma clean_set_inside:
  assumes "\<And>d. bit m d \<Longrightarrow> \<not> outside_dir w h (j div w) (j mod w) d"
  shows "clean w h (set_mask ops (int j) m) j"
proof (cases "int j < int (length ops)")
  case True
  then have "mask_at (set_mask ops (int j) m) (int j) = m"
    by (simp add: mask_at_set_mask)
  with assms show ?thesis by (auto simp: clean_def)
next
  case False
  then have "mask_at (set_mask ops (int j) m) (int j) = 0"
    by (simp add: mask_at_def set_mask_def)
  then show ?thesis by (simp add: clean_def)
qed

lemma normalize_cell_grows_clean:
  assumes "x < w" "y < h"
  shows "grows w h ops (normalize_cell w h ops y x) \<and>
         clean w h (normalize_cell w h ops y x) (y * w + x)"
proof -
  define idx where "idx = y * w + x"
  define m where "m = stripped w h y x (mask_at ops (int idx))"
  define ops1 where "ops1 = set_mask ops (int idx) m"
  define ops2 where "ops2 = (if int x < int w - 1 then east_west idx x m ops1 else ops1)"
  define ops3 where "ops3 = (if int y < int h - 1 then north_south idx w m ops2 else ops2)"
  have r: "normalize_cell w h ops y x = ops3"
    unfolding normalize_cell_steps Let_def ops3_def ops2_def ops1_def m_def idx_def
    by (rule refl)
  have dm: "idx div w = y" "idx mod w = x"
    using assms(1) cell_div_mod [of x w y] by (simp_all add: idx_def)
  have mb: "\<And>d. bit m d \<Longrightarrow> bit (mask_at ops (int idx)) d \<and> \<not> outside_dir w h y x d"
    unfolding m_def using stripped_bits [OF assms] by blast
  have g1: "grows w h ops ops1"
    unfolding ops1_def using mb by (intro grows_set_mask) (simp add: dm)
  have c1: "clean w h ops1 idx"
    unfolding ops1_def using mb by (intro clean_set_inside) (simp add: dm)
  have g2: "grows w h ops1 ops2"
  proof (cases "int x < int w - 1")
    case True
    then have "x + 1 < w" by simp
    from east_west_grows [OF this, of m h y ops1] mb True show ?thesis
      by (simp add: ops2_def idx_def)
  next
    case False
    then show ?thesis by (simp add: ops2_def grows_refl)
  qed
  have g3: "grows w h ops2 ops3"
  proof (cases "int y < int h - 1")
    case True
    then have "y + 1 < h" by simp
    from north_south_grows [OF assms(1) this, of m ops2] mb True show ?thesis
      by (simp add: ops3_def idx_def)
  next
    case False
    then show ?thesis by (simp add: ops3_def grows_refl)
  qed
  have "grows w h ops ops3"
    using g1 g2 g3 grows_trans by blast
  moreover have "clean w h ops3 idx"
    using c1 g2 g3 clean_grows by blast
  ultimately show ?thesis by (simp add: r idx_def)
qed

lemma fold_grows_clean:
  assumes step: "\<And>a ops. a \<in> set as \<Longrightarrow> grows w h ops (f a ops) \<and> C a (f a ops)"
    and pres: "\<And>a ops ops'. grows w h ops ops' \<Longrightarrow> C a ops \<Longrightarrow> C a ops'"
  shows "grows w h ops (fold f as ops) \<and> (\<forall>a \<in> set as. C a (fold f as ops))"
  using step
proof (induction as arbitrary: ops)
  case Nil
  then show ?case by (simp add: grows_refl)
next
  case (Cons a as)
  have s: "grows w h ops (f a ops)" "C a (f a ops)"
    using Cons.prems [of a ops] by simp_all
  have ih: "grows w h (f a ops) (fold f as (f a ops)) \<and>
            (\<forall>b \<in> set as. C b (fold f as (f a ops)))"
    by (rule Cons.IH) (simp add: Cons.prems)
  from ih s have "C a (fold f as (f a ops))"
    using pres by blast
  with ih s show ?case
    using grows_trans by auto
qed

lemma normalize_rows_grows_clean:
  "grows w h ops
     (fold (\<lambda>y ops. fold (\<lambda>x ops. normalize_cell w h ops y x) [0 ..< w] ops) [0 ..< h] ops) \<and>
   (\<forall>y < h. \<forall>x < w. clean w h
     (fold (\<lambda>y ops. fold (\<lambda>x ops. normalize_cell w h ops y x) [0 ..< w] ops) [0 ..< h] ops)
     (y * w + x))"
proof -
  have inner: "grows w h ops (fold (\<lambda>x ops. normalize_cell w h ops y x) [0 ..< w] ops) \<and>
     (\<forall>x \<in> set [0 ..< w]. clean w h (fold (\<lambda>x ops. normalize_cell w h ops y x) [0 ..< w] ops) (y * w + x))"
    if "y < h" for y ops
    by (rule fold_grows_clean [where C = "\<lambda>x ops. clean w h ops (y * w + x)"])
       (use that normalize_cell_grows_clean clean_grows in auto)
  have "grows w h ops
     (fold (\<lambda>y ops. fold (\<lambda>x ops. normalize_cell w h ops y x) [0 ..< w] ops) [0 ..< h] ops) \<and>
   (\<forall>y \<in> set [0 ..< h]. \<forall>x < w. clean w h
     (fold (\<lambda>y ops. fold (\<lambda>x ops. normalize_cell w h ops y x) [0 ..< w] ops) [0 ..< h] ops)
     (y * w + x))"
    by (rule fold_grows_clean [where C = "\<lambda>y ops. \<forall>x < w. clean w h ops (y * w + x)"])
       (use inner clean_grows in auto)
  then show ?thesis by simp
qed

lemma or_mask_grows:
  assumes "n < 8" "0 \<le> i \<longrightarrow> \<not> outside_dir w h (nat i div w) (nat i mod w) n"
  shows "grows w h ops (or_mask ops i (2 ^ n))"
proof (cases "0 \<le> i")
  case True
  then obtain j where j: "i = int j" by (metis nonneg_int_cases)
  with assms show ?thesis
    unfolding or_mask_def j by (intro grows_or_bit) simp_all
next
  case False
  then show ?thesis by (simp add: or_mask_def set_mask_def grows_refl)
qed

lemma or_mask_grows_nat:
  assumes "n < 8" "\<not> outside_dir w h (j div w) (j mod w) n"
  shows "grows w h ops (or_mask ops (int j) (2 ^ n))"
  unfolding or_mask_def using assms by (intro grows_or_bit)

lemma normalizeOpenings_clean:
  assumes "y < h" "x < w"
  shows "clean w h (normalizeOpenings ops w h) (y * w + x)"
proof -
  define ops1 where "ops1 =
    fold (\<lambda>y ops. fold (\<lambda>x ops. normalize_cell w h ops y x) [0 ..< w] ops) [0 ..< h] ops"
  have c1: "clean w h ops1 (y * w + x)"
    unfolding ops1_def using normalize_rows_grows_clean [of w h ops] assms by blast
  have w0: "0 < w" "0 < h" using assms by auto
  define ops2 where "ops2 =
     (if mask_at ops1 0 = 0 then
        (if w > 1 then or_mask (or_mask ops1 0 (2 ^ 1)) (0 + 1) (2 ^ 3)
         else if h > 1 then or_mask (or_mask ops1 0 (2 ^ 2)) (int w) (2 ^ 0)
         else ops1)
      else ops1)"
  have g2: "grows w h ops1 ops2"
  proof -
    have a: "w > 1 \<Longrightarrow> grows w h ops1 (or_mask ops1 0 (2 ^ 1))"
      by (rule or_mask_grows) (auto simp: outside_dir_def)
    have b: "w > 1 \<Longrightarrow> grows w h ops' (or_mask ops' (0 + 1) (2 ^ 3))" for ops'
      by (rule or_mask_grows) (auto simp: outside_dir_def)
    have c: "h > 1 \<Longrightarrow> grows w h ops1 (or_mask ops1 0 (2 ^ 2))"
      using w0 by (intro or_mask_grows) (auto simp: outside_dir_def)
    have d: "h > 1 \<Longrightarrow> grows w h ops' (or_mask ops' (int w) (2 ^ 0))" for ops'
      using w0 by (intro or_mask_grows) (auto simp: outside_dir_def)
    show ?thesis
    proof (cases "mask_at ops1 0 = 0")
      case False
      then show ?thesis by (simp add: ops2_def grows_refl)
    next
      case z: True
      show ?thesis
      proof (cases "w > 1")
        case True
        with z have "ops2 = or_mask (or_mask ops1 0 (2 ^ 1)) (0 + 1) (2 ^ 3)"
          by (simp add: ops2_def)
        with grows_trans [OF a [OF True] b [OF True]] show ?thesis by simp
      next
        case w1: False
        show ?thesis
        proof (cases "h > 1")
          case True
          with z w1 have "ops2 = or_mask (or_mask ops1 0 (2 ^ 2)) (int w) (2 ^ 0)"
            by (simp add: ops2_def)
          with grows_trans [OF c [OF True] d [OF True]] show ?thesis by simp
        next
          case False
          with z w1 show ?thesis by (simp add: ops2_def grows_refl)
        qed
      qed
    qed
  qed
  define goalIdx where "goalIdx = (int h - 1) * int w + (int w - 1)"
  define gj where "gj = (h - 1) * w + (w - 1)"
  have gi: "goalIdx = int gj"
  proof -
    obtain w' where w': "w = 1 + w'" using w0 nat_le_iff_add [of 1 w] by auto
    obtain h' where h': "h = 1 + h'" using w0 nat_le_iff_add [of 1 h] by auto
    show ?thesis
      unfolding goalIdx_def gj_def w' h' by (simp add: algebra_simps)
  qed
  have gdm: "gj div w = h - 1" "gj mod w = w - 1"
    using w0 cell_div_mod [of "w - 1" w "h - 1"] by (simp_all add: gj_def)
  define ops3 where "ops3 =
     (if mask_at ops2 goalIdx = 0 then
        (if w > 1 then or_mask (or_mask ops2 goalIdx (2 ^ 3)) (goalIdx - 1) (2 ^ 1)
         else if h > 1 then or_mask (or_mask ops2 goalIdx (2 ^ 0)) (goalIdx - int w) (2 ^ 2)
         else ops2)
      else ops2)"
  have g3: "grows w h ops2 ops3"
  proof -
    have a: "w > 1 \<Longrightarrow> grows w h ops2 (or_mask ops2 goalIdx (2 ^ 3))"
      unfolding gi by (rule or_mask_grows_nat) (auto simp: outside_dir_def gdm)
    define gw where "gw = (h - 1) * w + (w - 2)"
    have g1: "goalIdx - 1 = int gw" if wgt: "w > 1"
    proof -
      obtain w' where w': "w = 2 + w'" using wgt nat_le_iff_add [of 2 w] by auto
      obtain h' where h': "h = 1 + h'" using w0 nat_le_iff_add [of 1 h] by auto
      show ?thesis
        unfolding goalIdx_def gw_def w' h' by (simp add: algebra_simps)
    qed
    have gdm1: "w > 1 \<Longrightarrow> gw div w = h - 1 \<and> gw mod w = w - 2"
      using cell_div_mod [of "w - 2" w "h - 1"] by (simp add: gw_def)
    have b: "grows w h ops' (or_mask ops' (goalIdx - 1) (2 ^ 1))" if "w > 1" for ops'
      unfolding g1 [OF that]
      by (rule or_mask_grows_nat) (use gdm1 [OF that] that in \<open>auto simp: outside_dir_def\<close>)
    have c: "h > 1 \<Longrightarrow> grows w h ops2 (or_mask ops2 goalIdx (2 ^ 0))"
      unfolding gi by (rule or_mask_grows_nat) (auto simp: outside_dir_def gdm)
    define gn where "gn = (h - 2) * w + (w - 1)"
    have g2: "goalIdx - int w = int gn" if hgt: "h > 1"
    proof -
      obtain w' where w': "w = 1 + w'" using w0 nat_le_iff_add [of 1 w] by auto
      obtain h' where h': "h = 2 + h'" using hgt nat_le_iff_add [of 2 h] by auto
      show ?thesis
        unfolding goalIdx_def gn_def w' h' by (simp add: algebra_simps)
    qed
    have gdm2: "h > 1 \<Longrightarrow> gn div w = h - 2 \<and> gn mod w = w - 1"
      using w0 cell_div_mod [of "w - 1" w "h - 2"] by (simp add: gn_def)
    have d: "grows w h ops' (or_mask ops' (goalIdx - int w) (2 ^ 2))" if "h > 1" for ops'
      unfolding g2 [OF that]
      by (rule or_mask_grows_nat) (use gdm2 [OF that] that in \<open>auto simp: outside_dir_def\<close>)
    show ?thesis
    proof (cases "mask_at ops2 goalIdx = 0")
      case False
      then show ?thesis by (simp add: ops3_def grows_refl)
    next
      case z: True
      show ?thesis
      proof (cases "w > 1")
        case True
        with z have "ops3 = or_mask (or_mask ops2 goalIdx (2 ^ 3)) (goalIdx - 1) (2 ^ 1)"
          by (simp add: ops3_def)
        with grows_trans [OF a [OF True] b [OF True]] show ?thesis by simp
      next
        case w1: False
        show ?thesis
        proof (cases "h > 1")
          case True
          with z w1 have "ops3 = or_mask (or_mask ops2 goalIdx (2 ^ 0)) (goalIdx - int w) (2 ^ 2)"
            by (simp add: ops3_def)
          with grows_trans [OF c [OF True] d [OF True]] show ?thesis by simp
        next
          case False
          with z w1 show ?thesis by (simp add: ops3_def grows_refl)
        qed
      qed
    qed
  qed
  have r: "normalizeOpenings ops w h = ops3"
    unfolding normalizeOpenings_def Let_def ops3_def ops2_def ops1_def goalIdx_def
      DIRECTION_MASK_exp
    by (rule refl)
  from c1 g2 g3 show ?thesis
    unfolding r using clean_grows by blast
qed

lemma has_bit_exp: "has_bit ops i (2 ^ n) \<longleftrightarrow> bit (mask_at ops (int i)) n"
  by (simp add: has_bit_def byte_and_exp)

lemma openings_inside_clean:
  assumes "\<And>y x. y < h \<Longrightarrow> x < w \<Longrightarrow> clean w h ops (y * w + x)"
  shows "openings_inside ops w h"
proof -
  have c: "\<not> bit (mask_at ops (int (y * w + x))) d"
    if "y < h" "x < w" "outside_dir w h y x d" for y x d
    using assms [OF that(1,2)] cell_div_mod [of x w y] that(2,3) by (simp add: clean_def)
  have f: "(if y = 0 then \<not> has_bit ops (y * w + x) (2 ^ 0) else True) \<and>
        (if y = h - 1 then \<not> has_bit ops (y * w + x) (2 ^ 2) else True) \<and>
        (if x = 0 then \<not> has_bit ops (y * w + x) (2 ^ 3) else True) \<and>
        (if x = w - 1 then \<not> has_bit ops (y * w + x) (2 ^ 1) else True)"
    if yx: "y < h" "x < w" for y x
  proof -
    have n: "y = 0 \<Longrightarrow> \<not> has_bit ops (y * w + x) (2 ^ 0)"
      unfolding has_bit_exp by (rule c [OF yx]) (simp add: outside_dir_def)
    have s: "y = h - 1 \<Longrightarrow> \<not> has_bit ops (y * w + x) (2 ^ 2)"
      unfolding has_bit_exp by (rule c [OF yx]) (simp add: outside_dir_def)
    have w: "x = 0 \<Longrightarrow> \<not> has_bit ops (y * w + x) (2 ^ 3)"
      unfolding has_bit_exp by (rule c [OF yx]) (simp add: outside_dir_def)
    have e: "x = w - 1 \<Longrightarrow> \<not> has_bit ops (y * w + x) (2 ^ 1)"
      unfolding has_bit_exp by (rule c [OF yx]) (simp add: outside_dir_def)
    from n s w e show ?thesis by presburger
  qed
  show ?thesis
    unfolding openings_inside_def list_all_iff DIRECTION_MASK_exp
  proof (intro ballI)
    fix y x
    assume "y \<in> set [0 ..< h]" "x \<in> set [0 ..< w]"
    then have "y < h" "x < w" by simp_all
    then show "(if y = 0 then \<not> has_bit ops (y * w + x) (2 ^ 0) else True) \<and>
        (if y = h - 1 then \<not> has_bit ops (y * w + x) (2 ^ 2) else True) \<and>
        (if x = 0 then \<not> has_bit ops (y * w + x) (2 ^ 3) else True) \<and>
        (if x = w - 1 then \<not> has_bit ops (y * w + x) (2 ^ 1) else True)"
      by (rule f)
  qed
qed

lemma normalizeOpenings_inside: "openings_inside (normalizeOpenings ops w h) w h"
  by (rule openings_inside_clean) (rule normalizeOpenings_clean)
































lemma decodeOpenings_expanded_normalized:
  assumes "decodeOpenings_expanded pako parse g w h = Some masks"
  shows "\<exists>converted. masks = normalizeOpenings converted w h"
  using assms
  by (auto simp: decodeOpenings_expanded_def Let_def
           split: json.splits list.splits if_splits option.splits)

lemma lookup_D: "lookup (Some 68) = 3"
  using lookup_digit [of 3] by (simp add: BASE64_ALPHABET_def js_string_def)
lemma lookup_w: "lookup (Some 119) = 48"
  using lookup_digit [of 48] by (simp add: BASE64_ALPHABET_def js_string_def)
lemma decode_Dw: "decodeBase64ToUint8Array pako (js_string ''Dw=='') = Inr [15]"
  by (simp add: decodeBase64ToUint8Array_def sanitize_def is_js_space_def decode_raw_def
      endsWith_def js_string_def decode_loop.simps charCodeAt_def lookup_D lookup_w lookup_pad Let_def)


lemma expanded_path_1_2:
  "decodeOpenings_expanded (Some (\<lambda>bytes. None))
     (\<lambda>bytes. Some (JArr [JArr [JNum 0, JNum 0, JNum 0],
                            JArr [JNum 0, JNum 1, JNum 0],
                            JArr [JNum 0, JNum 1, JNum 0],
                            JArr [JNum 0, JNum 1, JNum 0],
                            JArr [JNum 0, JNum 0, JNum 0]]))
     (js_string ''Dw=='') 1 2 = Some [4, 1]"
proof -
  have c: "convertExpandedToRegular
     [JArr [JNum 0, JNum 0, JNum 0],
      JArr [JNum 0, JNum 1, JNum 0],
      JArr [JNum 0, JNum 1, JNum 0],
      JArr [JNum 0, JNum 1, JNum 0],
      JArr [JNum 0, JNum 0, JNum 0]] (Suc 0) 2 = Some [4, 1]"
    by code_simp
  have n: "normalizeOpenings [4, 1] (Suc 0) 2 = [4, 1]"
    by code_simp
  show ?thesis
    by (simp add: decodeOpenings_expanded_def tryParseBase64ZlibJson_def decode_Dw c n
        is_array_def Let_def)
qed




text \<open>
  Claim C8, as stated, covers the legacy nibble path too. There the nibbles are returned
  unchanged: the payload \<open>Dw==\<close> (the byte \<open>0F\<close>) for a 1 by 1 grid gives the mask 15, all
  four bits pointing outside.
\<close>

theorem decodeOpenings_legacy_outside_counterexample:
  "decodeOpenings None (\<lambda>bytes. None) (js_string ''Dw=='') 1 1 = Inr [15] \<and>
   \<not> openings_inside [15] 1 1"
proof -
  have "decodeOpenings None (\<lambda>bytes. None) (js_string ''Dw=='') 1 1 = Inr [15]"
    by (simp add: decodeOpenings_def decodeOpenings_expanded_def tryParseBase64ZlibJson_def
        decode_Dw nibble_loop.simps set_mask_def)
  moreover have "\<not> openings_inside [15] 1 1"
    by code_simp
  ultimately show ?thesis by blast
qed

text \<open>
  Claim C8, amended. Whenever \<open>decodeOpenings\<close> returns a mask array by the expanded-grid
  path, no cell on the grid boundary has a bit pointing outside the grid. (The legacy
  nibble path returns the nibbles of the payload as they are.)
\<close>

theorem decodeOpenings_expanded_inside:
  assumes "decodeOpenings_expanded pako parse g w h = Some masks"
  shows "decodeOpenings pako parse g w h = Inr masks \<and> openings_inside masks w h"
proof -
  from decodeOpenings_expanded_normalized [OF assms]
  obtain converted where "masks = normalizeOpenings converted w h" by blast
  then have "openings_inside masks w h"
    by (simp add: normalizeOpenings_inside)
  moreover have "decodeOpenings pako parse g w h = Inr masks"
    using assms by (simp add: decodeOpenings_def)
  ultimately show ?thesis by blast
qed

theorem decodeOpenings_expanded_inside_witness:
  "decodeOpenings_expanded (Some (\<lambda>bytes. None))
     (\<lambda>bytes. Some (JArr [JArr [JNum 0, JNum 0, JNum 0],
                            JArr [JNum 0, JNum 1, JNum 0],
                            JArr [JNum 0, JNum 1, JNum 0],
                            JArr [JNum 0, JNum 1, JNum 0],
                            JArr [JNum 0, JNum 0, JNum 0]]))
     (js_string ''Dw=='') 1 2 = Some [4, 1] \<and>
   decodeOpenings (Some (\<lambda>bytes. None))
     (\<lambda>bytes. Some (JArr [JArr [JNum 0, JNum 0, JNum 0],
                            JArr [JNum 0, JNum 1, JNum 0],
                            JArr [JNum 0, JNum 1, JNum 0],
                            JArr [JNum 0, JNum 1, JNum 0],
                            JArr [JNum 0, JNum 0, JNum 0]]))
     (js_string ''Dw=='') 1 2 = Inr [4, 1] \<and>
   openings_inside [4, 1] 1 2"
  using decodeOpenings_expanded_inside [OF expanded_path_1_2] expanded_path_1_2 by blast

section \<open>Properties of the move decoder\<close>

lemma those_map_Some: "those (map (\<lambda>x. Some (f x)) xs) = Some (map f xs)"
  by (induction xs) simp_all

lemma element_coord_json:
  "element (coord_json p) 0 = Some (Some (JNum (fst p)))"
  "element (coord_json p) 1 = Some (Some (JNum (snd p)))"
  by (simp_all add: element_def coord_json_def)

lemma destructure_coord_json: "destructure (coord_json p) = Some (pair_value p)"
  by (simp add: destructure_def coord_json_def pair_value_def)

lemma fold_max_gt:
  fixes L :: int
  shows "fold max xs a > L \<longleftrightarrow> a > L \<or> (\<exists>x \<in> set xs. x > L)"
  by (induction xs arbitrary: a) auto

lemma js_gt_max:
  assumes "ps \<noteq> []"
  shows "js_gt (js_max (map to_number_opt (map (\<lambda>p. Some (JNum (f p))) ps))) L \<longleftrightarrow>
         (\<exists>p \<in> set ps. f p > L)"
proof -
  have a: "list_all (\<lambda>x. x \<noteq> None) (map to_number_opt (map (\<lambda>p. Some (JNum (f p))) ps))"
    by (simp add: list_all_iff to_number_opt_def)
  have m: "map the (map to_number_opt (map (\<lambda>p. Some (JNum (f p))) ps)) = map f ps"
    by (simp add: to_number_opt_def comp_def)
  have h: "the (hd (map to_number_opt (map (\<lambda>p. Some (JNum (f p))) ps))) = f (hd ps)"
    using assms by (cases ps) (simp_all add: to_number_opt_def)
  have "hd ps \<in> set ps" using assms by simp
  then show ?thesis
    unfolding js_max_def js_gt_def using a m h
    by (auto simp: fold_max_gt)
qed

lemma js_rem_odd: "js_rem n 2 = 1 \<longleftrightarrow> 0 < n \<and> odd n"
proof -
  consider "n < 0" | "n = 0" | "0 < n" by linarith
  then show ?thesis
  proof cases
    case 1
    then have "js_rem n 2 = - (\<bar>n\<bar> mod 2)" by (simp add: js_rem_def)
    moreover have "0 \<le> \<bar>n\<bar> mod 2" by simp
    ultimately show ?thesis using 1 by linarith
  next
    case 2
    then show ?thesis by (simp add: js_rem_def)
  next
    case 3
    then have "js_rem n 2 = n mod 2" by (simp add: js_rem_def)
    with 3 show ?thesis by (simp add: odd_iff_mod_2_eq_one)
  qed
qed

lemma norm_pair_value: "norm_pair (pair_value p) = pair_value (halved_if_odd p)"
  by (simp add: norm_pair_def pair_value_def halved_if_odd_def to_number_opt_def js_rem_odd)

lemma js_sub_value: "js_sub (Some (JNum a)) (Some (JNum b)) = Some (a - b)"
  by (simp add: js_sub_def to_number_opt_def)

lemma moves_between_drop:
  assumes "i + 1 < length qs"
  shows "moves_between (drop i qs) = step_move (qs ! i) (qs ! (i + 1)) @ moves_between (drop (i + 1) qs)"
proof -
  have "drop i qs = qs ! i # drop (i + 1) qs"
    using assms by (simp add: Cons_nth_drop_Suc)
  moreover have "drop (i + 1) qs = qs ! (i + 1) # drop (i + 2) qs"
    using assms Cons_nth_drop_Suc [of "i + 1" qs] by simp
  ultimately show ?thesis by simp
qed

lemma moves_between_short: "\<not> i + 1 < length qs \<Longrightarrow> moves_between (drop i qs) = []"
proof -
  assume "\<not> i + 1 < length qs"
  then have "length (drop i qs) \<le> 1" by simp
  then show ?thesis
    by (cases "drop i qs" rule: moves_between.cases) simp_all
qed

lemma coords_loop_typed:
  "length moves \<le> nat L \<Longrightarrow>
   coords_loop (map (Some \<circ> pair_value) qs) L i moves =
     Some (take (nat L) (moves @ moves_between (drop i qs)))"
proof (induction "length qs - i" arbitrary: i moves rule: less_induct)
  case less
  let ?cs = "map (Some \<circ> pair_value) qs"
  show ?case
  proof (cases "int i < int (length ?cs) - 1 \<and> int (length moves) < L")
    case False
    have r: "coords_loop ?cs L i moves = Some moves"
      by (subst coords_loop.simps) (simp only: False if_False)
    show ?thesis
    proof (cases "i + 1 < length qs")
      case True
      with False have "L \<le> int (length moves)" by simp
      with less.prems have "nat L = length moves" by linarith
      then show ?thesis unfolding r by simp
    next
      case False
      from moves_between_short [OF this] less.prems show ?thesis
        unfolding r by simp
    qed
  next
    case True
    then have i: "i + 1 < length qs" and l: "int (length moves) < L" by simp_all
    define a where "a = qs ! i"
    define b where "b = qs ! (i + 1)"
    have e: "?cs ! i = Some (pair_value a)" "?cs ! (i + 1) = Some (pair_value b)"
      using i by (simp_all add: a_def b_def)
    have step: "coords_loop ?cs L i moves = coords_loop ?cs L (i + 1) (moves @ step_move a b)"
      using True
      by (subst coords_loop.simps)
         (simp add: e pair_value_def js_sub_value step_move_def Let_def del: One_nat_def)
    have m: "length qs - (i + 1) < length qs - i" using i by simp
    have "length (step_move a b) \<le> 1"
      by (simp add: step_move_def Let_def)
    with l have ln: "length (moves @ step_move a b) \<le> nat L"
      by simp
    have "coords_loop ?cs L i moves = coords_loop ?cs L (i + 1) (moves @ step_move a b)"
      by (rule step)
    also have "\<dots> = Some (take (nat L) ((moves @ step_move a b) @ moves_between (drop (i + 1) qs)))"
      by (rule less.hyps [OF m ln])
    also have "(moves @ step_move a b) @ moves_between (drop (i + 1) qs) =
               moves @ moves_between (drop i qs)"
      unfolding moves_between_drop [OF i] a_def b_def by simp
    finally show ?thesis .
  qed
qed

lemma decodeMoves_coords_typed:
  assumes "ps \<noteq> []"
  shows "decodeMoves_coords (map coord_json ps) L =
         Some (take (nat L) (moves_between (normalized_pairs ps L)))"
proof -
  have r: "those (map (\<lambda>c. element c 0) (map coord_json ps)) =
           Some (map (\<lambda>p. Some (JNum (fst p))) ps)"
    by (simp add: comp_def element_coord_json those_map_Some)
  have c: "those (map (\<lambda>c. element c 1) (map coord_json ps)) =
           Some (map (\<lambda>p. Some (JNum (snd p))) ps)"
    by (simp add: comp_def element_coord_json those_map_Some del: One_nat_def)
  have d: "map destructure (map coord_json ps) = map (Some \<circ> pair_value) ps"
    by (simp add: comp_def destructure_coord_json)
  have t: "those (map (Some \<circ> pair_value) ps) = Some (map pair_value ps)"
    by (simp add: comp_def those_map_Some)
  have n: "map Some (filter (\<lambda>v. True) (map norm_pair (map pair_value ps))) =
           map (Some \<circ> pair_value) (map halved_if_odd ps)"
    by (simp add: comp_def norm_pair_value)
  have g: "js_gt (js_max (map to_number_opt (map (\<lambda>p. Some (JNum (fst p))) ps))) L \<or>
           js_gt (js_max (map to_number_opt (map (\<lambda>p. Some (JNum (snd p))) ps))) L \<longleftrightarrow>
           list_ex (\<lambda>p. fst p > L \<or> snd p > L) ps"
    unfolding js_gt_max [OF assms] list_ex_iff by blast
  show ?thesis
    unfolding decodeMoves_coords_def r c option.case Let_def g t d n normalized_pairs_def
    using coords_loop_typed [of "[]" L "map halved_if_odd ps" 0] coords_loop_typed [of "[]" L ps 0]
    by simp
qed

lemma parsed_coords:
  "tryParseBase64ZlibJson (Some (\<lambda>bytes. None)) (\<lambda>bytes. Some v) (js_string ''Dw=='') = v"
  by (simp add: tryParseBase64ZlibJson_def decode_Dw)


text \<open>
  Claim C7, as stated: when a coordinate exceeds \<open>maxLength\<close>, the pairs that do not have
  two odd components are dropped before the moves are derived. They are not: the mapping
  returns such a pair as it is, and the filter after it removes nothing. For the parsed
  array \<open>[[1,1],[1,2],[1,3]]\<close> and \<open>L = 2\<close> the code derives its moves from
  \<open>(0,0), (1,2), (0,1)\<close> and returns none, where dropping \<open>(1,2)\<close> would give the one
  move east.
\<close>

theorem decodeMoves_unmappable_kept_counterexample:
  "decodeMoves (Some (\<lambda>bytes. None))
     (\<lambda>bytes. Some (JArr [JArr [JNum 1, JNum 1], JArr [JNum 1, JNum 2], JArr [JNum 1, JNum 3]]))
     (js_string ''Dw=='') 2 = Inr [] \<and>
   take (nat 2) (moves_between (dropping_pairs [(1, 1), (1, 2), (1, 3)] 2)) = [1]"
proof -
  have e: "[JArr [JNum 1, JNum 1], JArr [JNum 1, JNum 2], JArr [JNum 1, JNum 3]] =
           map coord_json [(1, 1), (1, 2), (1, 3)]"
    by (simp add: coord_json_def)
  have ne: "[(1, 1), (1, 2), (1 :: int, 3 :: int)] \<noteq> []" by simp
  have c: "decodeMoves_coords (map coord_json [(1, 1), (1, 2), (1, 3)]) 2 = Some []"
    unfolding decodeMoves_coords_typed [OF ne]
    by (simp add: normalized_pairs_def halved_if_odd_def step_move_def)
  have "decodeMoves (Some (\<lambda>bytes. None))
     (\<lambda>bytes. Some (JArr [JArr [JNum 1, JNum 1], JArr [JNum 1, JNum 2], JArr [JNum 1, JNum 3]]))
     (js_string ''Dw=='') 2 = Inr []"
    unfolding decodeMoves_def parsed_coords Let_def e using c by simp
  moreover have "take (nat 2) (moves_between (dropping_pairs [(1, 1), (1, 2), (1, 3)] 2)) = [1]"
    by (simp add: dropping_pairs_def step_move_def)
  ultimately show ?thesis by blast
qed

text \<open>
  Claim C7, amended. In the coordinate-array path of \<open>decodeMoves\<close>, for a parsed
  non-empty array of pairs of integers: whenever the largest row or the largest column
  exceeds \<open>maxLength\<close>, every pair whose two components are both odd and positive is
  replaced by \<open>((r-1)/2, (c-1)/2)\<close> and every other pair is kept as it is, none being
  dropped; otherwise all pairs are kept as they are. The result of \<open>decodeMoves\<close> is the
  sequence of moves derived from the consecutive pairs of that sequence, cut to
  \<open>maxLength\<close> moves.
\<close>

theorem decodeMoves_coordinates_normalized:
  assumes "tryParseBase64ZlibJson pako parse p = JArr (map coord_json ps)" "ps \<noteq> []"
  shows "decodeMoves pako parse p L =
         Inr (take (nat L) (moves_between (normalized_pairs ps L)))"
proof -
  from assms(2) obtain q qs where ps: "ps = q # qs" by (cases ps) auto
  have "decodeMoves_coords (coord_json q # map coord_json qs) L =
        Some (take (nat L) (moves_between (normalized_pairs ps L)))"
    using decodeMoves_coords_typed [OF assms(2), of L] by (simp add: ps)
  then show ?thesis
    unfolding decodeMoves_def assms(1) Let_def by (simp add: ps)
qed

theorem decodeMoves_coordinates_normalized_witness:
  "tryParseBase64ZlibJson (Some (\<lambda>bytes. None))
     (\<lambda>bytes. Some (JArr (map coord_json [(1, 1), (1, 3), (3, 3), (4, 3)])))
     (js_string ''Dw=='') = JArr (map coord_json [(1, 1), (1, 3), (3, 3), (4, 3)]) \<and>
   normalized_pairs [(1, 1), (1, 3), (3, 3), (4, 3)] 3 = [(0, 0), (0, 1), (1, 1), (4, 3)] \<and>
   decodeMoves (Some (\<lambda>bytes. None))
     (\<lambda>bytes. Some (JArr (map coord_json [(1, 1), (1, 3), (3, 3), (4, 3)])))
     (js_string ''Dw=='') 3 = Inr [1, 2]"
proof -
  have n: "normalized_pairs [(1, 1), (1, 3), (3, 3), (4, 3)] 3 = [(0, 0), (0, 1), (1, 1), (4, 3)]"
    by (simp add: normalized_pairs_def halved_if_odd_def)
  have m: "take (nat 3) (moves_between [(0, 0), (0, 1), (1, 1), (4, 3)]) = [1, 2]"
    by (simp add: step_move_def)
  have ne: "[(1, 1), (1, 3), (3, 3), (4 :: int, 3 :: int)] \<noteq> []" by simp
  from decodeMoves_coordinates_normalized [OF parsed_coords ne, of 3] n m parsed_coords
  show ?thesis by simp
qed

section \<open>Properties of the game screen\<close>

text \<open>
  Claim C10. In every game state whose walked path holds at least two cells, a target
  equal to the cell before the current cursor cell leaves the state unchanged: no move
  and no cell is appended, whatever the openings are.
\<close>

theorem processCell_previous_cell_ignored:
  assumes "length (gs_playerCells s) \<ge> 2"
    and "target = gs_playerCells s ! (length (gs_playerCells s) - 2)"
  shows "processCell now s target = Inr s"
proof (cases "gs_currentMaze s")
  case None
  then show ?thesis by (simp add: processCell_def)
next
  case (Some maze)
  from assms(1) have ne: "gs_playerCells s \<noteq> []" by auto
  show ?thesis
    using Some ne assms by (simp add: processCell_def Let_def)
qed

theorem processCell_previous_cell_ignored_witness:
  "length (gs_playerCells sample_state) \<ge> 2 \<and>
   \<lparr>gx = 0, gy = 0\<rparr> = gs_playerCells sample_state ! (length (gs_playerCells sample_state) - 2) \<and>
   mask_at (gs_openings sample_state) 1 AND DIRECTION_MASK_W \<noteq> 0 \<and>
   processCell 5000 sample_state \<lparr>gx = 0, gy = 0\<rparr> = Inr sample_state"
proof -
  have a: "length (gs_playerCells sample_state) \<ge> 2" by (simp add: sample_state_def)
  have b: "\<lparr>gx = 0, gy = 0\<rparr> = gs_playerCells sample_state ! (length (gs_playerCells sample_state) - 2)"
    by (simp add: sample_state_def)
  have c: "mask_at (gs_openings sample_state) 1 AND DIRECTION_MASK_W \<noteq> 0"
    by (simp add: sample_state_def mask_at_def DIRECTION_MASK_W_def)
  from processCell_previous_cell_ignored [OF a b] a b c show ?thesis by blast
qed

end
